theory Spec2Isabelle
  imports Main "HOL-Library.Sublist"
begin

section \<open>Loosely typed records\<close>

text \<open>
  Every entity of the dashboard (team, member, audit-log entry) is a value parsed from a
  JSON document.  An object is the association list of its properties, with distinct
  keys, in the order in which \<^verbatim>\<open>Object.entries\<close> enumerates them.  Numbers are the
  integers that a JavaScript number holds exactly (identifiers, counts, epoch
  milliseconds).  A string is the list of the bytes of the UTF-8 encoding of its
  (well-formed) text, so that one text occurs in another exactly when its bytes do.  The
  JavaScript value \<^verbatim>\<open>undefined\<close> (a missing property) is \<open>None\<close> of \<open>json option\<close>.
\<close>

datatype json =
    JNull
  | JBool bool
  | JNum int
  | JStr string
  | JArr "json list"
  | JObj "(string \<times> json) list"

type_synonym obj = "(string \<times> json) list"

text \<open>Truthiness, as tested by \<^verbatim>\<open>if (v)\<close>, \<^verbatim>\<open>!v\<close>, \<^verbatim>\<open>a || b\<close> and \<^verbatim>\<open>filter(Boolean)\<close>.\<close>

fun truthy :: "json \<Rightarrow> bool" where
  "truthy JNull = False"
| "truthy (JBool b) = b"
| "truthy (JNum n) = (n \<noteq> 0)"
| "truthy (JStr s) = (s \<noteq> [])"
| "truthy (JArr vs) = True"
| "truthy (JObj kvs) = True"

fun truthy_opt :: "json option \<Rightarrow> bool" where
  "truthy_opt None = False"
| "truthy_opt (Some v) = truthy v"

text \<open>\<^verbatim>\<open>a || b\<close>: the left operand when it is truthy, the right one otherwise.\<close>

definition js_or :: "json option \<Rightarrow> json option \<Rightarrow> json option" where
  "js_or a b = (if truthy_opt a then a else b)"


text \<open>\<^verbatim>\<open>a ?? b\<close>: the right operand only when the left one is \<^verbatim>\<open>null\<close> or \<^verbatim>\<open>undefined\<close>.\<close>

fun js_coalesce :: "json option \<Rightarrow> json option \<Rightarrow> json option" where
  "js_coalesce None b = b"
| "js_coalesce (Some JNull) b = b"
| "js_coalesce a b = a"

text \<open>
  Property reads.  \<open>fld\<close> is \<^verbatim>\<open>o.k\<close> on a record; \<open>get_prop\<close> is \<^verbatim>\<open>v.k\<close> on a value that is
  known not to be \<^verbatim>\<open>null\<close> (the names read by the program are never \<^verbatim>\<open>length\<close> or an
  index, so strings, numbers, booleans and arrays give \<^verbatim>\<open>undefined\<close>); \<open>opt_prop\<close> is
  the optional chain \<^verbatim>\<open>v?.k\<close>.
\<close>

definition fld :: "obj \<Rightarrow> string \<Rightarrow> json option" where
  "fld kvs k = map_of kvs k"

fun get_prop :: "json \<Rightarrow> string \<Rightarrow> json option" where
  "get_prop (JObj kvs) k = fld kvs k"
| "get_prop _ k = None"

fun opt_prop :: "json option \<Rightarrow> string \<Rightarrow> json option" where
  "opt_prop None k = None"
| "opt_prop (Some JNull) k = None"
| "opt_prop (Some v) k = get_prop v k"

subsection \<open>Conversion to strings\<close>

definition digit_char :: "int \<Rightarrow> char" where
  "digit_char d = ''0123456789'' ! nat d"

text \<open>The decimal numeral of a non-negative integer.\<close>

function string_of_digits :: "int \<Rightarrow> string" where
  "string_of_digits n =
     (if n < 10 then [digit_char n] else string_of_digits (n div 10) @ [digit_char (n mod 10)])"
  by pat_completeness auto
termination
  by (relation "measure nat") auto

declare string_of_digits.simps [simp del]

definition string_of_int :: "int \<Rightarrow> string" where
  "string_of_int i = (if i < 0 then CHR ''-'' # string_of_digits (- i) else string_of_digits i)"

text \<open>
  \<^verbatim>\<open>String(v)\<close>, which is also the conversion of a value used as a property key: an array
  joins the conversions of its elements with commas (\<^verbatim>\<open>null\<close> elements are empty), an
  object is \<^verbatim>\<open>[object Object]\<close>.  A number is written as its decimal numeral, which is
  what \<^verbatim>\<open>String\<close> gives for the integers below \<open>10\<^sup>2\<^sup>1\<close> in magnitude; fractions and the
  exponent notation of larger numbers are not represented.
\<close>

fun join :: "string \<Rightarrow> string list \<Rightarrow> string" where
  "join sep [] = []"
| "join sep [x] = x"
| "join sep (x # xs) = x @ sep @ join sep xs"

fun js_String :: "json \<Rightarrow> string" where
  "js_String JNull = ''null''"
| "js_String (JBool b) = (if b then ''true'' else ''false'')"
| "js_String (JNum n) = string_of_int n"
| "js_String (JStr s) = s"
| "js_String (JArr vs) = join '','' (map (\<lambda>v. if v = JNull then [] else js_String v) vs)"
| "js_String (JObj kvs) = ''[object Object]''"

definition property_key :: "json option \<Rightarrow> string" where
  "property_key v = (case v of None \<Rightarrow> ''undefined'' | Some w \<Rightarrow> js_String w)"

definition lower_char :: "char \<Rightarrow> char" where
  "lower_char c =
     (let n = (of_char c :: nat) in if 65 \<le> n \<and> n \<le> 90 then char_of (n + 32) else c)"

text \<open>
  \<open>ascii_lower\<close> folds the letters A to Z and nothing else: it is the comparison of header
  names and of a regular expression with the flag \<^verbatim>\<open>i\<close> against an ASCII pattern.  The
  method \<^verbatim>\<open>String.prototype.toLowerCase\<close> is not this function: it follows the Unicode
  case mappings, which depend on the neighbouring characters.  Every definition below
  that calls the method takes it as its first parameter \<open>toLowerCase\<close>.
\<close>

definition ascii_lower :: "string \<Rightarrow> string" where
  "ascii_lower s = map lower_char s"

text \<open>\<^verbatim>\<open>hay.includes(needle)\<close>: the needle starts at some position of the haystack.\<close>

fun str_includes :: "string \<Rightarrow> string \<Rightarrow> bool" where
  "str_includes [] needle = (needle = [])"
| "str_includes (c # cs) needle = (prefix needle (c # cs) \<or> str_includes cs needle)"

section \<open>Free-text search (src/utils/search.ts)\<close>

text \<open>
  The inner function \<^verbatim>\<open>visit\<close>, with the lower-cased query as \<open>needle\<close>: a string, number
  or boolean is tested by \<^verbatim>\<open>String(val).toLowerCase().includes(needle)\<close>.
\<close>

fun visit :: "(string \<Rightarrow> string) \<Rightarrow> string \<Rightarrow> json \<Rightarrow> bool" where
  "visit toLowerCase needle JNull = False"
| "visit toLowerCase needle (JStr s) = str_includes (toLowerCase (js_String (JStr s))) needle"
| "visit toLowerCase needle (JNum n) = str_includes (toLowerCase (js_String (JNum n))) needle"
| "visit toLowerCase needle (JBool b) = str_includes (toLowerCase (js_String (JBool b))) needle"
| "visit toLowerCase needle (JArr vs) = list_ex (visit toLowerCase needle) vs"
| "visit toLowerCase needle (JObj kvs) = list_ex (\<lambda>kv. visit toLowerCase needle (snd kv)) kvs"

definition search :: "(string \<Rightarrow> string) \<Rightarrow> json \<Rightarrow> string \<Rightarrow> bool" where
  "search toLowerCase obj q = (if q = [] then True else visit toLowerCase (toLowerCase q) obj)"

text \<open>The string values held by a value at any depth, in document order.\<close>

fun string_values :: "json \<Rightarrow> string list" where
  "string_values (JStr s) = [s]"
| "string_values (JArr vs) = concat (map string_values vs)"
| "string_values (JObj kvs) = concat (map (\<lambda>kv. string_values (snd kv)) kvs)"
| "string_values _ = []"

text \<open>
  Two Greek texts in UTF-8: the word \<open>greek_chaos\<close> is capital chi, alpha, omicron, sigma
  (U+03A7, U+0391, U+039F, U+03A3) and \<open>capital_sigma\<close> is its last letter alone.  The
  method \<^verbatim>\<open>toLowerCase\<close> turns a capital sigma at the end of a word into the final sigma
  U+03C2 and any other capital sigma into U+03C3, so that it maps the word to
  \<open>greek_chaos_lower\<close> and the single letter to \<open>small_sigma\<close>.  \<open>toLowerCase_at_sigma\<close> is the
  method at these two strings (and the ASCII folding elsewhere).
\<close>

definition capital_sigma :: string where
  "capital_sigma = [CHR 0xCE, CHR 0xA3]"

definition small_sigma :: string where
  "small_sigma = [CHR 0xCF, CHR 0x83]"

definition greek_chaos :: string where
  "greek_chaos = [CHR 0xCE, CHR 0xA7, CHR 0xCE, CHR 0x91, CHR 0xCE, CHR 0x9F] @ capital_sigma"

definition greek_chaos_lower :: string where
  "greek_chaos_lower =
     [CHR 0xCF, CHR 0x87, CHR 0xCE, CHR 0xB1, CHR 0xCE, CHR 0xBF, CHR 0xCF, CHR 0x82]"

definition toLowerCase_at_sigma :: "string \<Rightarrow> string" where
  "toLowerCase_at_sigma s =
     (if s = greek_chaos then greek_chaos_lower
      else if s = capital_sigma then small_sigma
      else ascii_lower s)"

section \<open>Audit-log field flattening (AuditLogsPage in src/pages/RolesPage.tsx)\<close>

text \<open>
  The inspection view fills an array \<^verbatim>\<open>rows\<close> through \<^verbatim>\<open>pushRow(path, value)\<close>.  A row is
  recorded here as the path together with the value it displays; the list returned by
  \<open>walk\<close> is the content of \<^verbatim>\<open>rows\<close> in the order of the pushes.
\<close>

definition pushRow :: "string \<Rightarrow> json \<Rightarrow> (string \<times> json) list" where
  "pushRow path v = (if path = ''params'' \<or> path = ''query_context'' then [] else [(path, v)])"

text \<open>\<^verbatim>\<open>v && typeof v === 'object' && !Array.isArray(v)\<close>\<close>

fun is_plain_object :: "json \<Rightarrow> bool" where
  "is_plain_object (JObj kvs) = True"
| "is_plain_object _ = False"

text \<open>\<^verbatim>\<open>prefix.slice(0,-1)\<close> is \<open>butlast\<close>: it drops the trailing dot, and is empty on the empty prefix.\<close>

fun walk :: "json \<Rightarrow> string \<Rightarrow> (string \<times> json) list" where
  "walk (JObj kvs) pfx =
     concat (map (\<lambda>kv.
        let k = fst kv; v = snd kv; path = pfx @ k in
        if is_plain_object v \<and> \<not> (k = ''params'' \<or> k = ''query_context'')
        then pushRow path v @ walk v (path @ ''.'')
        else pushRow path v) kvs)"
| "walk v pfx = pushRow (butlast pfx) v"

text \<open>The record \<^verbatim>\<open>{a: {b: 1}, params: {x: 1}, details: {params: {y: 2}}}\<close>.\<close>

definition example_log :: json where
  "example_log =
     JObj [(''a'', JObj [(''b'', JNum 1)]),
           (''params'', JObj [(''x'', JNum 1)]),
           (''details'', JObj [(''params'', JObj [(''y'', JNum 2)])])]"

text \<open>
  Reading a value along a chain of keys, \<^verbatim>\<open>r.k1.k2...kn\<close>, and the dotted path the view
  shows for that chain.
\<close>

fun descend :: "json \<Rightarrow> string list \<Rightarrow> json option" where
  "descend v [] = Some v"
| "descend (JObj kvs) (k # ks) = (case map_of kvs k of None \<Rightarrow> None | Some w \<Rightarrow> descend w ks)"
| "descend _ (k # ks) = None"

fun dotted :: "string list \<Rightarrow> string" where
  "dotted [] = []"
| "dotted [k] = k"
| "dotted (k # ks) = k @ ''.'' @ dotted ks"

section \<open>Analytics view (src/pages/AnalyticsPage.tsx)\<close>

text \<open>
  \<^verbatim>\<open>xs.sort(cmp)\<close> with a comparison function: the sort is stable, so for a consistent
  comparison its result is the one of insertion sort.
\<close>

fun insort_cmp :: "('a \<Rightarrow> 'a \<Rightarrow> int) \<Rightarrow> 'a \<Rightarrow> 'a list \<Rightarrow> 'a list" where
  "insort_cmp cmp x [] = [x]"
| "insort_cmp cmp x (y # ys) = (if cmp x y \<le> 0 then x # y # ys else y # insort_cmp cmp x ys)"

definition sort_cmp :: "('a \<Rightarrow> 'a \<Rightarrow> int) \<Rightarrow> 'a list \<Rightarrow> 'a list" where
  "sort_cmp cmp xs = foldr (insort_cmp cmp) xs []"

subsection \<open>The filter \<^verbatim>\<open>filtered\<close>\<close>

text \<open>
  The state \<^verbatim>\<open>range\<close> is one of \<^verbatim>\<open>'week'\<close>, \<^verbatim>\<open>'month'\<close>, \<^verbatim>\<open>'year'\<close>.  The clock
  \<^verbatim>\<open>Date.now()\<close> and the parser \<^verbatim>\<open>Date.parse\<close> are parameters: \<open>now\<close> is the current time
  in milliseconds and \<open>Date_parse v\<close> is \<open>None\<close> where \<^verbatim>\<open>Date.parse(v)\<close> is \<^verbatim>\<open>NaN\<close>.
\<close>

datatype time_range = Week | Month | Year

definition rangeMs :: "time_range \<Rightarrow> int" where
  "rangeMs rng =
     (if rng = Week then 7*24*3600*1000
      else if rng = Month then 30*24*3600*1000
      else 365*24*3600*1000)"

text \<open>
  \<^verbatim>\<open>workspace !== 'ALL' && (l.workspace_title || l.workspace_name || 'Unknown') !== workspace\<close>
\<close>

definition workspace_rejects :: "string \<Rightarrow> obj \<Rightarrow> bool" where
  "workspace_rejects workspace l =
     (workspace \<noteq> ''ALL'' \<and>
      js_or (js_or (fld l ''workspace_title'') (fld l ''workspace_name'')) (Some (JStr ''Unknown''))
        \<noteq> Some (JStr workspace))"

text \<open>\<^verbatim>\<open>query && !search(l, query)\<close>\<close>

definition query_rejects :: "(string \<Rightarrow> string) \<Rightarrow> string \<Rightarrow> obj \<Rightarrow> bool" where
  "query_rejects toLowerCase query l = (query \<noteq> [] \<and> \<not> search toLowerCase (JObj l) query)"

text \<open>\<^verbatim>\<open>const ts = l.timestamp ? Date.parse(l.timestamp) : NaN\<close>\<close>

definition timestamp_of :: "(json \<Rightarrow> int option) \<Rightarrow> obj \<Rightarrow> int option" where
  "timestamp_of Date_parse l =
     (case fld l ''timestamp'' of
        None \<Rightarrow> None
      | Some t \<Rightarrow> if truthy t then Date_parse t else None)"

definition keep ::
  "(string \<Rightarrow> string) \<Rightarrow> int \<Rightarrow> (json \<Rightarrow> int option) \<Rightarrow> string \<Rightarrow> string \<Rightarrow> time_range \<Rightarrow> obj
     \<Rightarrow> bool" where
  "keep toLowerCase now Date_parse workspace query rng l =
     (let cutoff = now - rangeMs rng in
      if workspace_rejects workspace l then False
      else if query_rejects toLowerCase query l then False
      else case timestamp_of Date_parse l of
             Some ts \<Rightarrow> if ts < cutoff then False else True
           | None \<Rightarrow> True)"

definition filtered ::
  "(string \<Rightarrow> string) \<Rightarrow> int \<Rightarrow> (json \<Rightarrow> int option) \<Rightarrow> obj list \<Rightarrow> string \<Rightarrow> string \<Rightarrow>
     time_range \<Rightarrow> obj list" where
  "filtered toLowerCase now Date_parse logs workspace query rng =
     filter (keep toLowerCase now Date_parse workspace query rng) logs"

subsection \<open>The selectable workspace list \<^verbatim>\<open>workspaces\<close>\<close>

datatype js_error = TypeError | SyntaxError | Error string

definition is_space :: "char \<Rightarrow> bool" where
  "is_space c = (c \<in> set [CHR '' '', CHR 0x09, CHR 0x0A, CHR 0x0B, CHR 0x0C, CHR 0x0D])"

definition trim :: "string \<Rightarrow> string" where
  "trim s = rev (dropWhile is_space (rev (dropWhile is_space s)))"

text \<open>
  \<^verbatim>\<open>(l.workspace_title || l.workspace_name || 'unknown').trim() || 'unknown'\<close>; only a
  string has the method \<^verbatim>\<open>trim\<close>.
\<close>

definition workspace_title :: "obj \<Rightarrow> js_error + string" where
  "workspace_title l =
     (case js_or (js_or (fld l ''workspace_title'') (fld l ''workspace_name'')) (Some (JStr ''unknown'')) of
        Some (JStr s) \<Rightarrow> Inr (if trim s \<noteq> [] then trim s else ''unknown'')
      | _ \<Rightarrow> Inl TypeError)"

text \<open>A \<^verbatim>\<open>Set\<close> of strings is the list of its members in insertion order.\<close>

definition set_add :: "string list \<Rightarrow> string \<Rightarrow> string list" where
  "set_add found x = (if x \<in> set found then found else found @ [x])"

fun collect_titles :: "string list \<Rightarrow> obj list \<Rightarrow> js_error + string list" where
  "collect_titles found [] = Inr found"
| "collect_titles found (l # ls) =
     (case workspace_title l of
        Inl e \<Rightarrow> Inl e
      | Inr title \<Rightarrow> collect_titles (set_add found title) ls)"

definition desiredOrder :: "string list" where
  "desiredOrder = [''Production'', ''Pre-Production'', ''Sandbox'', ''unknown'']"

definition place_desired ::
  "(string \<Rightarrow> string) \<Rightarrow> string list \<times> string list \<Rightarrow> string \<Rightarrow> string list \<times> string list" where
  "place_desired toLowerCase st name =
     (case find (\<lambda>f. toLowerCase f = toLowerCase name) (snd st) of
        Some f \<Rightarrow> (fst st @ [f], remove1 f (snd st))
      | None \<Rightarrow> st)"

text \<open>The comparison \<^verbatim>\<open>a.localeCompare(b)\<close> depends on the locale and is a parameter.\<close>

definition workspaces ::
  "(string \<Rightarrow> string) \<Rightarrow> (string \<Rightarrow> string \<Rightarrow> int) \<Rightarrow> obj list \<Rightarrow> js_error + string list" where
  "workspaces toLowerCase localeCompare logs =
     (case collect_titles [] logs of
        Inl e \<Rightarrow> Inl e
      | Inr found \<Rightarrow>
          let st = foldl (place_desired toLowerCase) ([''ALL''], found) desiredOrder;
              ordered = fst st;
              remaining = sort_cmp localeCompare (filter (\<lambda>f. f \<notin> set ordered) (snd st))
          in Inr (ordered @ remaining))"

subsection \<open>The aggregation \<^verbatim>\<open>metrics\<close>\<close>

text \<open>
  A counting object \<^verbatim>\<open>Record<string, number>\<close> is the list of its own properties in the
  order of their creation, and \<open>bump m k\<close> is \<^verbatim>\<open>m[k] = (m[k]||0)+1\<close> for a key \<open>k\<close> that the
  object does not inherit.  The object is created by \<^verbatim>\<open>{}\<close>, so that for a key among
  \<open>inherited_names\<close> and not yet its own the read \<^verbatim>\<open>m[k]\<close> gives the member of
  \<^verbatim>\<open>Object.prototype\<close>, a function or an object, the sum is a string, and the comparison in
  \<open>toSorted\<close> is no longer an order.  That behaviour is not described by \<open>bump\<close>: every
  statement about the aggregation below is made for labels outside \<open>inherited_names\<close>.
\<close>

definition inherited_names :: "string list" where
  "inherited_names =
     [''constructor'', ''__defineGetter__'', ''__defineSetter__'', ''hasOwnProperty'',
      ''__lookupGetter__'', ''__lookupSetter__'', ''isPrototypeOf'', ''propertyIsEnumerable'',
      ''toString'', ''valueOf'', ''__proto__'', ''toLocaleString'']"

type_synonym counts = "(string \<times> nat) list"

fun put :: "(string \<times> 'v) list \<Rightarrow> string \<Rightarrow> 'v \<Rightarrow> (string \<times> 'v) list" where
  "put [] k v = [(k, v)]"
| "put (e # m) k v = (if fst e = k then (k, v) # m else e # put m k v)"

definition bump :: "counts \<Rightarrow> string \<Rightarrow> counts" where
  "bump m k = put m k ((case map_of m k of None \<Rightarrow> 0 | Some c \<Rightarrow> c) + 1)"

text \<open>
  \<^verbatim>\<open>Object.entries\<close> enumerates the keys that are array indices (canonical decimal numerals
  up to \<open>2\<^sup>3\<^sup>2 - 2\<close>) first, in ascending numeric order, and then the other keys in the
  order of their creation.
\<close>

definition is_digit :: "char \<Rightarrow> bool" where
  "is_digit c = (48 \<le> (of_char c :: nat) \<and> (of_char c :: nat) \<le> 57)"

definition int_of_digits :: "string \<Rightarrow> int" where
  "int_of_digits s = foldl (\<lambda>a c. 10 * a + ((of_char c :: int) - 48)) 0 s"

definition is_array_index :: "string \<Rightarrow> bool" where
  "is_array_index k =
     (k \<noteq> [] \<and> list_all is_digit k \<and> (hd k \<noteq> CHR ''0'' \<or> k = ''0'') \<and>
      int_of_digits k \<le> 4294967294)"

definition Object_entries :: "counts \<Rightarrow> counts" where
  "Object_entries m =
     sort_key (\<lambda>e. int_of_digits (fst e)) (filter (\<lambda>e. is_array_index (fst e)) m) @
     filter (\<lambda>e. \<not> is_array_index (fst e)) m"

record bar_datum =
  label :: string
  bar_value :: nat

text \<open>
  \<^verbatim>\<open>Object.entries(m).map(([label,value]) => ({label, value})).sort((a,b)=>b.value-a.value)\<close>;
  the sort of an array is stable.
\<close>

definition toSorted :: "counts \<Rightarrow> bar_datum list" where
  "toSorted m =
     sort_cmp (\<lambda>a b. int (bar_value b) - int (bar_value a))
       (map (\<lambda>e. \<lparr>label = fst e, bar_value = snd e\<rparr>) (Object_entries m))"

record count_maps =
  chartMap :: counts
  dashMap :: counts
  userMap :: counts
  actionMap :: counts

record metrics_result =
  chartViews :: "bar_datum list"
  dashboardViews :: "bar_datum list"
  activeUsers :: "bar_datum list"
  actionCounts :: "bar_datum list"

text \<open>\<^verbatim>\<open>l.action || l.event || l.type\<close>\<close>

definition action_of :: "obj \<Rightarrow> json option" where
  "action_of l = js_or (js_or (fld l ''action'') (fld l ''event'')) (fld l ''type'')"

text \<open>\<^verbatim>\<open>typeof l.user === 'string' ? l.user : (l.user?.email || l.user_email || 'Unknown')\<close>\<close>

definition user_of :: "obj \<Rightarrow> json option" where
  "user_of l =
     (case fld l ''user'' of
        Some (JStr s) \<Rightarrow> Some (JStr s)
      | u \<Rightarrow> js_or (js_or (opt_prop u ''email'') (fld l ''user_email'')) (Some (JStr ''Unknown'')))"

text \<open>The body of \<^verbatim>\<open>filtered.forEach\<close>.\<close>

definition tally :: "count_maps \<Rightarrow> obj \<Rightarrow> count_maps" where
  "tally s l =
     (let action = action_of l;
          s1 = (if truthy_opt action
                then s\<lparr>actionMap := bump (actionMap s) (property_key action)\<rparr> else s);
          user = user_of l;
          s2 = s1\<lparr>userMap := bump (userMap s1) (property_key user)\<rparr>;
          s3 = (if action = Some (JStr ''chart:view'') \<and> truthy_opt (fld l ''entity_name'')
                then s2\<lparr>chartMap := bump (chartMap s2) (property_key (fld l ''entity_name''))\<rparr>
                else s2)
      in if action = Some (JStr ''dashboard:view'') \<and> truthy_opt (fld l ''entity_name'')
         then s3\<lparr>dashMap := bump (dashMap s3) (property_key (fld l ''entity_name''))\<rparr>
         else s3)"

definition metrics :: "obj list \<Rightarrow> metrics_result" where
  "metrics flt =
     (if flt = [] then \<lparr>chartViews = [], dashboardViews = [], activeUsers = [], actionCounts = []\<rparr>
      else
        let s = foldl tally \<lparr>chartMap = [], dashMap = [], userMap = [], actionMap = []\<rparr> flt
        in \<lparr>chartViews = toSorted (chartMap s),
            dashboardViews = toSorted (dashMap s),
            activeUsers = toSorted (userMap s),
            actionCounts = toSorted (actionMap s)\<rparr>)"

subsection \<open>Vocabulary for the ranking of the series\<close>

text \<open>
  The three chart views of the specification's example, four more chart views with a tie,
  the stream of labels that the loop counts into each of the four objects, the labels of a stream in the order of their
  first occurrence, and the order in which \<^verbatim>\<open>Object.entries\<close> lists the labels of a stream.
\<close>

definition example_views :: "obj list" where
  "example_views =
     [[(''action'', JStr ''chart:view''), (''entity_name'', JStr ''A'')],
      [(''action'', JStr ''chart:view''), (''entity_name'', JStr ''A'')],
      [(''action'', JStr ''chart:view''), (''entity_name'', JStr ''B'')]]"

definition ranked_views :: "obj list" where
  "ranked_views =
     [[(''action'', JStr ''chart:view''), (''entity_name'', JStr ''A''), (''user'', JStr ''ann'')],
      [(''action'', JStr ''chart:view''), (''entity_name'', JStr ''B'')],
      [(''action'', JStr ''chart:view''), (''entity_name'', JStr ''C''), (''user'', JStr ''ann'')],
      [(''action'', JStr ''chart:view''), (''entity_name'', JStr ''B''),
       (''user'', JObj [(''email'', JStr ''bob@x'')])]]"

definition chart_labels :: "obj list \<Rightarrow> string list" where
  "chart_labels logs =
     concat (map (\<lambda>l. if action_of l = Some (JStr ''chart:view'') \<and> truthy_opt (fld l ''entity_name'')
                        then [property_key (fld l ''entity_name'')] else []) logs)"

definition dash_labels :: "obj list \<Rightarrow> string list" where
  "dash_labels logs =
     concat (map (\<lambda>l. if action_of l = Some (JStr ''dashboard:view'') \<and> truthy_opt (fld l ''entity_name'')
                        then [property_key (fld l ''entity_name'')] else []) logs)"

definition user_labels :: "obj list \<Rightarrow> string list" where
  "user_labels logs = map (\<lambda>l. property_key (user_of l)) logs"

definition action_labels :: "obj list \<Rightarrow> string list" where
  "action_labels logs =
     concat (map (\<lambda>l. if truthy_opt (action_of l) then [property_key (action_of l)] else []) logs)"

fun first_seen :: "'a list \<Rightarrow> 'a list" where
  "first_seen [] = []"
| "first_seen (x # xs) = x # filter (\<lambda>y. y \<noteq> x) (first_seen xs)"

definition descending :: "bar_datum list \<Rightarrow> bool" where
  "descending series = sorted_wrt (\<lambda>a b. bar_value b \<le> bar_value a) series"

definition tie_group :: "nat \<Rightarrow> bar_datum list \<Rightarrow> string list" where
  "tie_group c series = map label (filter (\<lambda>d. bar_value d = c) series)"

definition key_order :: "string list \<Rightarrow> string list" where
  "key_order ks =
     sort_key int_of_digits (filter is_array_index (first_seen ks)) @
     filter (\<lambda>k. \<not> is_array_index k) (first_seen ks)"

definition labels_with_count :: "nat \<Rightarrow> string list \<Rightarrow> string list" where
  "labels_with_count c ks = filter (\<lambda>k. count_list ks k = c) (key_order ks)"

section \<open>Users view (src/pages/UsersPage.tsx)\<close>











section \<open>Snapshot fetcher (scripts/fetchPresetData.mjs)\<close>

subsection \<open>Responses and the request function\<close>

text \<open>
  A response as the script reads it: the status with its text, the value \<^verbatim>\<open>res.json()\<close>
  resolves to (\<open>None\<close> when it rejects), and the headers under lower-case names.
  \<^verbatim>\<open>res.ok\<close> holds for the statuses 200 to 299.
\<close>

record response =
  status :: nat
  statusText :: string
  json_body :: "json option"
  headers :: "(string \<times> string) list"

definition ok :: "response \<Rightarrow> bool" where
  "ok res = (200 \<le> status res \<and> status res \<le> 299)"

text \<open>
  The loops below call \<^verbatim>\<open>await api(url)\<close>, which answers with a response or with
  \<^verbatim>\<open>undefined\<close>.  They are written over any such function: \<open>'w\<close> is the state of whatever
  stands behind it (the remote service, the session), threaded through the calls in the
  order in which the script awaits them.
\<close>

type_synonym 'w api = "'w \<Rightarrow> string \<Rightarrow> response option \<times> 'w"

text \<open>
  \<^verbatim>\<open>encodeURIComponent\<close> on a string of bytes, and the URL of one page:
  \<^verbatim>\<open>`${endpoint}${sep}q=${encodeURIComponent(JSON.stringify({ page, page_size: pageSize }))}`\<close>.
\<close>

definition hex_digit :: "nat \<Rightarrow> char" where
  "hex_digit d = ''0123456789ABCDEF'' ! d"

definition is_unreserved :: "char \<Rightarrow> bool" where
  "is_unreserved c =
     (let n = (of_char c :: nat) in
      (65 \<le> n \<and> n \<le> 90) \<or> (97 \<le> n \<and> n \<le> 122) \<or> (48 \<le> n \<and> n \<le> 57) \<or>
      c \<in> set ''-_.!~*'' \<or> c = CHR 0x27 \<or> c \<in> set ''()'')"

definition encodeURIComponent :: "string \<Rightarrow> string" where
  "encodeURIComponent s =
     concat (map (\<lambda>c. if is_unreserved c then [c]
                       else [CHR ''%'', hex_digit ((of_char c :: nat) div 16),
                             hex_digit ((of_char c :: nat) mod 16)]) s)"

definition paged_url :: "string \<Rightarrow> nat \<Rightarrow> nat \<Rightarrow> string" where
  "paged_url endpoint page pageSize =
     (let sep = (if str_includes endpoint ''?'' then ''&'' else ''?'') in
      endpoint @ sep @ ''q='' @
        encodeURIComponent
          (''{'' @ [CHR 0x22] @ ''page'' @ [CHR 0x22] @ '':'' @ string_of_int (int page) @ '','' @
             [CHR 0x22] @ ''page_size'' @ [CHR 0x22] @ '':'' @ string_of_int (int pageSize) @ ''}''))"

subsection \<open>Probing candidate endpoints: \<^verbatim>\<open>tryEndpoints\<close>\<close>

fun is_array :: "json option \<Rightarrow> bool" where
  "is_array (Some (JArr vs)) = True"
| "is_array _ = False"

fun elements :: "json option \<Rightarrow> json list" where
  "elements (Some (JArr vs)) = vs"
| "elements _ = []"

definition page_items :: "json \<Rightarrow> json list" where
  "page_items json =
     (if is_array (opt_prop (Some json) ''result'') then elements (opt_prop (Some json) ''result'')
      else if is_array (opt_prop (Some json) ''data'') then elements (opt_prop (Some json) ''data'')
      else if is_array (Some json) then elements (Some json)
      else [])"

text \<open>
  One turn of the \<^verbatim>\<open>while (true)\<close> loop, after the response of page \<open>page\<close> has arrived:
  it throws, breaks with the items gathered so far, or goes on to the next page.
\<close>

datatype loop_exit = Throw js_error | Break "json list" | Next "json list"

definition page_body :: "nat \<Rightarrow> nat \<Rightarrow> json list \<Rightarrow> response option \<Rightarrow> loop_exit" where
  "page_body pageSize page out res =
     (case res of
        None \<Rightarrow> Throw (Error ''No response'')
      | Some r \<Rightarrow>
          if status r = 404 then Break out
          else if \<not> ok r then Throw (Error (string_of_int (int (status r)) @ '' '' @ statusText r))
          else (case json_body r of
                  None \<Rightarrow> Throw SyntaxError
                | Some json \<Rightarrow>
                    let items = page_items json in
                    if length items = 0
                    then (if page = 1 then Throw (Error ''Empty first page'') else Break out)
                    else if \<not> truthy_opt (opt_prop (Some json) ''result'') \<or> length items < pageSize
                    then Break (out @ items)
                    else if page > 50 then Break (out @ items)
                    else Next (out @ items)))"

function paginate ::
  "'w api \<Rightarrow> string \<Rightarrow> nat \<Rightarrow> nat \<Rightarrow> json list \<Rightarrow> 'w \<Rightarrow> (js_error + json list) \<times> 'w" where
  "paginate api endpoint pageSize page0 out w =
     (let page = page0 + 1;
          r = api w (paged_url endpoint page pageSize)
      in case page_body pageSize page out (fst r) of
           Throw e \<Rightarrow> (Inl e, snd r)
         | Break out' \<Rightarrow> (Inr out', snd r)
         | Next out' \<Rightarrow> paginate api endpoint pageSize page out' (snd r))"
  by pat_completeness auto
termination
proof (relation "measure (\<lambda>(api, endpoint, pageSize, page0, out, w). 51 - page0)")
  fix api :: "'w api" and endpoint pageSize page0 out w page r out'
  assume "page = page0 + 1" and "page_body pageSize page out (fst r) = Next out'"
  then have "page0 + 1 \<le> 50"
    by (auto simp: page_body_def Let_def split: option.splits if_splits)
  with \<open>page = page0 + 1\<close>
  show "((api, endpoint, pageSize, page, out', snd r), (api, endpoint, pageSize, page0, out, w))
      \<in> measure (\<lambda>(api, endpoint, pageSize, page0, out, w). 51 - page0)"
    by simp
qed simp

declare paginate.simps [simp del]

text \<open>The branch without pagination, and the loop over the candidates.\<close>

definition plain_items :: "json \<Rightarrow> json list" where
  "plain_items json =
     (if is_array (opt_prop (Some json) ''data'') then elements (opt_prop (Some json) ''data'')
      else if is_array (opt_prop (Some json) ''result'') then elements (opt_prop (Some json) ''result'')
      else if is_array (Some json) then elements (Some json)
      else [])"

datatype 'a attempt = Threw js_error | Continue | Return 'a

definition fetch_plain :: "response option \<Rightarrow> json list attempt" where
  "fetch_plain res =
     (case res of
        None \<Rightarrow> Threw (Error ''No response'')
      | Some r \<Rightarrow>
          if status r = 404 then Continue
          else if \<not> ok r then Threw (Error (string_of_int (int (status r)) @ '' '' @ statusText r))
          else (case json_body r of
                  None \<Rightarrow> Threw SyntaxError
                | Some json \<Rightarrow>
                    let items = plain_items json in
                    if length items = 0 then Threw (Error ''No items'') else Return items))"

fun tryEndpoints ::
  "'w api \<Rightarrow> string \<Rightarrow> string list \<Rightarrow> bool \<Rightarrow> nat \<Rightarrow> 'w \<Rightarrow> json list \<times> 'w" where
  "tryEndpoints api lbl [] paginated pageSize w = ([], w)"
| "tryEndpoints api lbl (endpoint # candidates) paginated pageSize w =
     (if paginated then
        (case paginate api endpoint pageSize 0 [] w of
           (Inl e, w') \<Rightarrow> tryEndpoints api lbl candidates paginated pageSize w'
         | (Inr out, w') \<Rightarrow>
             if length out \<noteq> 0 then (out, w')
             else tryEndpoints api lbl candidates paginated pageSize w')
      else
        (let r = api w endpoint in
         case fetch_plain (fst r) of
           Return items \<Rightarrow> (items, snd r)
         | _ \<Rightarrow> tryEndpoints api lbl candidates paginated pageSize (snd r)))"

text \<open>
  An observer for the statements about requests: \<open>logging api\<close> answers as \<open>api\<close> does and
  records every call with its answer.
\<close>

definition logging ::
  "('w \<Rightarrow> 'q \<Rightarrow> 'a \<times> 'w) \<Rightarrow> 'w \<times> ('q \<times> 'a) list \<Rightarrow> 'q \<Rightarrow> 'a \<times> 'w \<times> ('q \<times> 'a) list" where
  "logging api = (\<lambda>wl url. let r = api (fst wl) url in (fst r, (snd r, snd wl @ [(url, fst r)])))"

definition page_requests :: "'w api \<Rightarrow> string \<Rightarrow> nat \<Rightarrow> 'w \<Rightarrow> (string \<times> response option) list" where
  "page_requests api endpoint pageSize w =
     snd (snd (paginate (logging api) endpoint pageSize 0 [] (w, [])))"

text \<open>
  A page after which the loop asks for the next one: a successful response whose
  \<^verbatim>\<open>result\<close> property is truthy and whose items are neither none nor fewer than the page
  size.
\<close>

definition is_full_page :: "nat \<Rightarrow> response option \<Rightarrow> bool" where
  "is_full_page pageSize res =
     (case res of
        None \<Rightarrow> False
      | Some r \<Rightarrow>
          status r \<noteq> 404 \<and> ok r \<and>
          (case json_body r of
             None \<Rightarrow> False
           | Some json \<Rightarrow>
               page_items json \<noteq> [] \<and> pageSize \<le> length (page_items json) \<and>
               truthy_opt (opt_prop (Some json) ''result'')))"

text \<open>
  Services for the examples: one that answers every request with the same response, and
  one that answers the successive requests from a script, whatever they ask for.
\<close>

definition constant_service :: "response option \<Rightarrow> unit api" where
  "constant_service r = (\<lambda>w url. (r, w))"

definition scripted :: "response option list \<Rightarrow> 'q \<Rightarrow> response option \<times> response option list" where
  "scripted = (\<lambda>rs url. case rs of [] \<Rightarrow> (None, []) | r # rs' \<Rightarrow> (r, rs'))"

definition result_page :: "json list \<Rightarrow> response option" where
  "result_page xs =
     Some \<lparr>status = 200, statusText = ''OK'',
           json_body = Some (JObj [(''result'', JArr xs)]), headers = []\<rparr>"

definition bare_page :: "json list \<Rightarrow> response option" where
  "bare_page xs =
     Some \<lparr>status = 200, statusText = ''OK'', json_body = Some (JArr xs), headers = []\<rparr>"

subsection \<open>Per-team fan-out in \<^verbatim>\<open>main\<close>\<close>

text \<open>
  The identifiers of a team \<open>t\<close>: \<^verbatim>\<open>t?.id || t?.team_id\<close>, \<^verbatim>\<open>t?.name || t?.slug || t?.title\<close>
  and \<^verbatim>\<open>t?.uuid\<close>; the candidates \<^verbatim>\<open>uniqueIds\<close> are those that are neither \<^verbatim>\<open>null\<close> nor
  \<^verbatim>\<open>undefined\<close>, converted to strings, without repetition.  \<open>team_tag\<close> is
  \<^verbatim>\<open>numericId ?? nameId\<close>.
\<close>

definition numericId :: "json \<Rightarrow> json option" where
  "numericId t = js_or (opt_prop (Some t) ''id'') (opt_prop (Some t) ''team_id'')"

definition nameId :: "json \<Rightarrow> json option" where
  "nameId t =
     js_or (js_or (opt_prop (Some t) ''name'') (opt_prop (Some t) ''slug''))
       (opt_prop (Some t) ''title'')"

definition uuidId :: "json \<Rightarrow> json option" where
  "uuidId t = opt_prop (Some t) ''uuid''"

fun not_nullish :: "json option \<Rightarrow> bool" where
  "not_nullish None = False"
| "not_nullish (Some JNull) = False"
| "not_nullish (Some v) = True"

definition uniqueIds :: "json \<Rightarrow> string list" where
  "uniqueIds t =
     foldl set_add [] (map property_key (filter not_nullish [nameId t, numericId t, uuidId t]))"

definition team_tag :: "json \<Rightarrow> json option" where
  "team_tag t = js_coalesce (numericId t) (nameId t)"

definition teamMembersFallbacks :: "string \<Rightarrow> string list" where
  "teamMembersFallbacks teamMembersPattern =
     [teamMembersPattern,
      ''/v1/teams/{team_id}/memberships/'',
      ''/v1/teams/{team_id}/members'',
      ''/v1/teams/{team_id}/members/'',
      ''/v1/teams/{team_id}/users'',
      ''/v1/teams/{team_id}/users/'']"

text \<open>
  \<^verbatim>\<open>pattern.replace('{team_id}', encodeURIComponent(candidate))\<close> replaces the first
  occurrence of the placeholder.
\<close>

fun replace_first :: "string \<Rightarrow> string \<Rightarrow> string \<Rightarrow> string" where
  "replace_first pat rep [] = (if pat = [] then rep else [])"
| "replace_first pat rep (c # cs) =
     (if prefix pat (c # cs) then rep @ drop (length pat) (c # cs)
      else c # replace_first pat rep cs)"

definition member_endpoint :: "string \<Rightarrow> string \<Rightarrow> string" where
  "member_endpoint pattern candidate =
     replace_first ''{team_id}'' (encodeURIComponent candidate) pattern"

definition audit_endpoint :: "string \<Rightarrow> string" where
  "audit_endpoint candidate = ''/v2/audit/teams/'' @ encodeURIComponent candidate @ ''/logs''"

text \<open>
  The items of a membership response: the body itself, or the array under \<open>data\<close>,
  \<open>result\<close>, \<open>payload\<close> or \<open>payload.data\<close>; when that gives nothing, the first of the body's
  values that is an array with an element that is an object having \<open>user_id\<close> or \<open>email\<close>.
\<close>

fun object_values :: "json \<Rightarrow> json list" where
  "object_values (JObj kvs) = map snd kvs"
| "object_values (JArr vs) = vs"
| "object_values (JStr s) = map (\<lambda>c. JStr [c]) s"
| "object_values _ = []"

fun looks_like_member :: "json \<Rightarrow> bool" where
  "looks_like_member (JObj kvs) = (''user_id'' \<in> fst ` set kvs \<or> ''email'' \<in> fst ` set kvs)"
| "looks_like_member _ = False"

fun member_array :: "json \<Rightarrow> bool" where
  "member_array (JArr vs) = list_ex looks_like_member vs"
| "member_array _ = False"

definition member_items :: "json \<Rightarrow> json list" where
  "member_items json =
     (let items =
            (if is_array (Some json) then elements (Some json)
             else if is_array (opt_prop (Some json) ''data'')
               then elements (opt_prop (Some json) ''data'')
             else if is_array (opt_prop (Some json) ''result'')
               then elements (opt_prop (Some json) ''result'')
             else if is_array (opt_prop (Some json) ''payload'')
               then elements (opt_prop (Some json) ''payload'')
             else if is_array (opt_prop (opt_prop (Some json) ''payload'') ''data'')
               then elements (opt_prop (opt_prop (Some json) ''payload'') ''data'')
             else [])
      in if length items = 0
         then elements (find member_array (object_values (if truthy json then json else JObj [])))
         else items)"

definition audit_items :: "json \<Rightarrow> json list" where
  "audit_items json =
     (if is_array (Some json) then elements (Some json)
      else if is_array (opt_prop (Some json) ''data'') then elements (opt_prop (Some json) ''data'')
      else if is_array (opt_prop (Some json) ''result'')
        then elements (opt_prop (Some json) ''result'')
      else if is_array (opt_prop (Some json) ''payload'')
        then elements (opt_prop (Some json) ''payload'')
      else if is_array (opt_prop (Some json) ''logs'') then elements (opt_prop (Some json) ''logs'')
      else [])"

text \<open>
  Records are built by object literals that start with a spread.  A record is kept as
  \<^verbatim>\<open>JSON.stringify\<close> writes it to the output file: a property set to \<^verbatim>\<open>undefined\<close> is
  absent.  Building a member record throws a \<^verbatim>\<open>TypeError\<close> where it reads
  \<^verbatim>\<open>m.user_id\<close> of a \<^verbatim>\<open>null\<close> item.
\<close>

fun spread :: "json \<Rightarrow> obj" where
  "spread (JObj kvs) = kvs"
| "spread (JArr vs) = zip (map (\<lambda>i. string_of_int (int i)) [0 ..< length vs]) vs"
| "spread (JStr s) = zip (map (\<lambda>i. string_of_int (int i)) [0 ..< length s]) (map (\<lambda>c. JStr [c]) s)"
| "spread _ = []"

fun assign :: "obj \<Rightarrow> string \<Rightarrow> json option \<Rightarrow> obj" where
  "assign ob k None = filter (\<lambda>e. fst e \<noteq> k) ob"
| "assign ob k (Some v) = put ob k v"

definition member_record :: "json option \<Rightarrow> string \<Rightarrow> json \<Rightarrow> js_error + obj" where
  "member_record tid candidate m =
     (let u = (case js_or (opt_prop (Some m) ''user'') (Some (JObj [])) of
                 Some v \<Rightarrow> v | None \<Rightarrow> JObj [])
      in if \<not> not_nullish (get_prop u ''id'') \<and> m = JNull then Inl TypeError
         else
           Inr (assign (assign (assign (assign (assign (assign (assign (assign (spread m)
                  ''_team_id'' tid)
                  ''_team_identifier_used'' (Some (JStr candidate)))
                  ''email'' (get_prop u ''email''))
                  ''first_name'' (get_prop u ''first_name''))
                  ''last_name'' (get_prop u ''last_name''))
                  ''username'' (get_prop u ''username''))
                  ''user_id'' (js_coalesce (js_coalesce (get_prop u ''id'') (get_prop m ''user_id''))
                                 (get_prop m ''id'')))
                  ''team_role_name'' (opt_prop (opt_prop (Some m) ''team_role'') ''name'')))"

text \<open>
  \<^verbatim>\<open>items.forEach\<close> pushes record after record; when an item throws, the records pushed
  before it stay in \<^verbatim>\<open>teamMembers\<close>.
\<close>

fun push_members :: "json option \<Rightarrow> string \<Rightarrow> json list \<Rightarrow> obj list \<Rightarrow> js_error option \<times> obj list" where
  "push_members tid candidate [] teamMembers = (None, teamMembers)"
| "push_members tid candidate (m # ms) teamMembers =
     (case member_record tid candidate m of
        Inl e \<Rightarrow> (Some e, teamMembers)
      | Inr r \<Rightarrow> push_members tid candidate ms (teamMembers @ [r]))"

text \<open>
  The body of the loop over the patterns (the result tells whether \<^verbatim>\<open>got\<close> was set), the
  loop over the patterns, and the loop over the candidates.
\<close>

definition try_member_pattern ::
  "'w api \<Rightarrow> json option \<Rightarrow> string \<Rightarrow> string \<Rightarrow> obj list \<Rightarrow> 'w \<Rightarrow> bool \<times> obj list \<times> 'w" where
  "try_member_pattern api tid candidate pattern teamMembers w =
     (let ep = member_endpoint pattern candidate;
          r = api w ep
      in case fst r of
           None \<Rightarrow> (False, teamMembers, snd r)
         | Some res \<Rightarrow>
             if status res = 404 then (False, teamMembers, snd r)
             else if \<not> ok res then (False, teamMembers, snd r)
             else (case json_body res of
                     None \<Rightarrow> (False, teamMembers, snd r)
                   | Some json \<Rightarrow>
                       (case push_members tid candidate (member_items json) teamMembers of
                          (Some e, teamMembers') \<Rightarrow> (False, teamMembers', snd r)
                        | (None, teamMembers') \<Rightarrow> (True, teamMembers', snd r))))"

fun try_member_patterns ::
  "'w api \<Rightarrow> json option \<Rightarrow> string \<Rightarrow> string list \<Rightarrow> obj list \<Rightarrow> 'w \<Rightarrow> bool \<times> obj list \<times> 'w" where
  "try_member_patterns api tid candidate [] teamMembers w = (False, teamMembers, w)"
| "try_member_patterns api tid candidate (pattern # patterns) teamMembers w =
     (case try_member_pattern api tid candidate pattern teamMembers w of
        (True, teamMembers', w') \<Rightarrow> (True, teamMembers', w')
      | (False, teamMembers', w') \<Rightarrow>
          try_member_patterns api tid candidate patterns teamMembers' w')"

fun try_member_candidates ::
  "'w api \<Rightarrow> json option \<Rightarrow> string list \<Rightarrow> string list \<Rightarrow> obj list \<Rightarrow> 'w \<Rightarrow> bool \<times> obj list \<times> 'w" where
  "try_member_candidates api tid [] patterns teamMembers w = (False, teamMembers, w)"
| "try_member_candidates api tid (candidate # candidates) patterns teamMembers w =
     (case try_member_patterns api tid candidate patterns teamMembers w of
        (True, teamMembers', w') \<Rightarrow> (True, teamMembers', w')
      | (False, teamMembers', w') \<Rightarrow>
          try_member_candidates api tid candidates patterns teamMembers' w')"

text \<open>The audit-log loop of a team, which stops at the first candidate that gives items.\<close>

definition audit_record :: "json option \<Rightarrow> string \<Rightarrow> json \<Rightarrow> obj" where
  "audit_record tid candidate l =
     assign (assign (spread l) ''_team_id'' tid) ''_team_identifier_used'' (Some (JStr candidate))"

fun audit_loop ::
  "'w api \<Rightarrow> json option \<Rightarrow> string list \<Rightarrow> string list \<Rightarrow> obj list \<Rightarrow> 'w \<Rightarrow> obj list \<times> 'w" where
  "audit_loop api tid auditTried [] auditLogsAll w = (auditLogsAll, w)"
| "audit_loop api tid auditTried (candidate # candidates) auditLogsAll w =
     (if candidate \<in> set auditTried then audit_loop api tid auditTried candidates auditLogsAll w
      else
        let r = api w (audit_endpoint candidate) in
        case fst r of
          None \<Rightarrow> audit_loop api tid (set_add auditTried candidate) candidates auditLogsAll (snd r)
        | Some res \<Rightarrow>
            if status res = 404 \<or> \<not> ok res
            then audit_loop api tid (set_add auditTried candidate) candidates auditLogsAll (snd r)
            else (case json_body res of
                    None \<Rightarrow>
                      audit_loop api tid (set_add auditTried candidate) candidates auditLogsAll (snd r)
                  | Some json \<Rightarrow>
                      if length (audit_items json) = 0
                      then audit_loop api tid (set_add auditTried candidate) candidates
                             auditLogsAll (snd r)
                      else (auditLogsAll @ map (audit_record tid candidate) (audit_items json),
                            snd r)))"

text \<open>The body of the loop over the teams, and the loop.\<close>

definition fan_out_team ::
  "'w api \<Rightarrow> string list \<Rightarrow> obj list \<times> obj list \<times> 'w \<Rightarrow> json \<Rightarrow> obj list \<times> obj list \<times> 'w" where
  "fan_out_team api patterns acc t =
     (let teamMembers = fst acc; auditLogsAll = fst (snd acc); w = snd (snd acc);
          ids = uniqueIds t
      in if length ids = 0 then acc
         else
           let m = try_member_candidates api (team_tag t) ids patterns teamMembers w;
               a = audit_loop api (team_tag t) [] ids auditLogsAll (snd (snd m))
           in (fst (snd m), fst a, snd a))"

definition fan_out :: "'w api \<Rightarrow> string list \<Rightarrow> json list \<Rightarrow> 'w \<Rightarrow> obj list \<times> obj list \<times> 'w" where
  "fan_out api patterns teams w = foldl (fan_out_team api patterns) ([], [], w) teams"

text \<open>A team with a numeric id and a name, and a membership response, for the examples.\<close>

definition example_team :: json where
  "example_team = JObj [(''id'', JNum 7), (''name'', JStr ''eng'')]"

definition members_response :: "response option" where
  "members_response =
     Some \<lparr>status = 200, statusText = ''OK'',
           json_body = Some (JObj [(''payload'',
              JArr [JObj [(''user'', JObj [(''id'', JNum 1), (''email'', JStr ''a@x'')])]])]),
           headers = []\<rparr>"

definition audit_response :: "response option" where
  "audit_response =
     Some \<lparr>status = 200, statusText = ''OK'',
           json_body = Some (JObj [(''data'', JArr [JObj [(''action'', JStr ''chart:view'')]])]),
           headers = []\<rparr>"

definition example_fan_out ::
  "obj list \<times> obj list \<times> response option list \<times> (string \<times> response option) list" where
  "example_fan_out =
     fan_out (logging scripted) (teamMembersFallbacks ''/v1/teams/{team_id}/memberships'')
       [example_team] ([members_response, audit_response], [])"

text \<open>
  Provenance of a record of team \<open>t\<close>, given the log of the calls: its \<open>_team_id\<close> is the
  team's tag, and its \<open>_team_identifier_used\<close> is one of the team's candidates, for which a
  call to one of the given endpoints was answered with a successful response.
\<close>

definition answered :: "(string \<times> response option) list \<Rightarrow> string \<Rightarrow> bool" where
  "answered log ep = list_ex (\<lambda>e. fst e = ep \<and> (case snd e of None \<Rightarrow> False | Some res \<Rightarrow> ok res)) log"

definition provenance ::
  "(string \<times> response option) list \<Rightarrow> (string \<Rightarrow> string list) \<Rightarrow> json \<Rightarrow> obj \<Rightarrow> bool" where
  "provenance log endpoints t r =
     (fld r ''_team_id'' = team_tag t \<and>
      list_ex (\<lambda>c. fld r ''_team_identifier_used'' = Some (JStr c) \<and>
                    list_ex (answered log) (endpoints c))
        (uniqueIds t))"

subsection \<open>Authentication: \<^verbatim>\<open>obtainJWT\<close>, \<^verbatim>\<open>extractJWT\<close> and \<^verbatim>\<open>api\<close>\<close>

text \<open>
  \<^verbatim>\<open>fetch\<close> is a parameter: it answers a request with a response, or with \<open>None\<close> when
  the promise rejects, and \<open>'n\<close> is the state of the network behind it.  The body of a
  request is the value handed to \<^verbatim>\<open>JSON.stringify\<close>.  The configuration holds the
  environment variables the script reads; the four module-level variables are the fields of
  \<open>auth_state\<close> (\<^verbatim>\<open>null\<close> is \<open>None\<close>).
\<close>

record request =
  req_method :: string
  req_url :: string
  req_headers :: "(string \<times> string) list"
  req_body :: "json option"

type_synonym 'n fetch = "'n \<Rightarrow> request \<Rightarrow> response option \<times> 'n"

record config =
  token :: string
  secret :: string
  presetBearer :: "string option"
  base :: string

record auth_state =
  cachedJWT :: "json option"
  attemptedAuth :: bool
  debugAuthPayload :: "json option"
  sessionCookie :: "string option"


text \<open>Truthiness and \<^verbatim>\<open>||\<close> on values that are a string, \<^verbatim>\<open>null\<close> or \<^verbatim>\<open>undefined\<close>.\<close>

fun truthy_str :: "string option \<Rightarrow> bool" where
  "truthy_str None = False"
| "truthy_str (Some s) = (s \<noteq> [])"

definition str_or :: "string option \<Rightarrow> string option \<Rightarrow> string option" where
  "str_or a b = (if truthy_str a then a else b)"

text \<open>\<^verbatim>\<open>base.replace(/\/$/, '')\<close>\<close>

definition strip_slash :: "string \<Rightarrow> string" where
  "strip_slash s = (if s \<noteq> [] \<and> last s = CHR ''/'' then butlast s else s)"

definition authUrl :: "config \<Rightarrow> string" where
  "authUrl cfg = strip_slash (base cfg) @ ''/v1/auth/''"

text \<open>\<^verbatim>\<open>Buffer.from(s).toString('base64')\<close> on a string of bytes.\<close>

definition base64_char :: "nat \<Rightarrow> char" where
  "base64_char n =
     ''ABCDEFGHIJKLMNOPQRSTUVWXYZabcdefghijklmnopqrstuvwxyz0123456789+/'' ! n"

fun base64_bytes :: "nat list \<Rightarrow> string" where
  "base64_bytes [] = []"
| "base64_bytes [a] = [base64_char (a div 4), base64_char ((a mod 4) * 16), CHR ''='', CHR ''='']"
| "base64_bytes [a, b] =
     [base64_char (a div 4), base64_char ((a mod 4) * 16 + b div 16),
      base64_char ((b mod 16) * 4), CHR ''='']"
| "base64_bytes (a # b # c # rest) =
     [base64_char (a div 4), base64_char ((a mod 4) * 16 + b div 16),
      base64_char ((b mod 16) * 4 + c div 64), base64_char (c mod 64)] @ base64_bytes rest"

definition base64 :: "string \<Rightarrow> string" where
  "base64 s = base64_bytes (map of_char s)"

text \<open>The three requests of the credential exchange.\<close>

definition primary_request :: "config \<Rightarrow> request" where
  "primary_request cfg =
     \<lparr>req_method = ''POST'', req_url = authUrl cfg,
      req_headers = [(''Content-Type'', ''application/json'')],
      req_body = Some (JObj [(''name'', JStr (token cfg)), (''secret'', JStr (secret cfg))])\<rparr>"

definition legacy_request :: "config \<Rightarrow> request" where
  "legacy_request cfg =
     \<lparr>req_method = ''POST'', req_url = authUrl cfg,
      req_headers = [(''Content-Type'', ''application/json'')],
      req_body = Some (JObj [(''api_token'', JStr (token cfg)), (''api_secret'', JStr (secret cfg))])\<rparr>"

definition basic_request :: "config \<Rightarrow> request" where
  "basic_request cfg =
     \<lparr>req_method = ''GET'', req_url = authUrl cfg,
      req_headers = [(''Authorization'', ''Basic '' @ base64 (token cfg @ '':'' @ secret cfg))],
      req_body = None\<rparr>"

text \<open>
  \<^verbatim>\<open>headers.get(name)\<close> ignores the case of the name.  \<open>last_token\<close> is
  \<^verbatim>\<open>auth.split(/\s+/).pop()\<close>, and \<^verbatim>\<open>/bearer /i.test(auth)\<close> is a search for \<open>bearer \<close> in the
  lower-cased header.
\<close>

definition headers_get :: "(string \<times> string) list \<Rightarrow> string \<Rightarrow> string option" where
  "headers_get hdrs name = map_of hdrs (ascii_lower name)"

definition last_token :: "string \<Rightarrow> string" where
  "last_token s = rev (takeWhile (\<lambda>c. \<not> is_space c) (rev s))"

definition extractJWT :: "json \<Rightarrow> (string \<times> string) list \<Rightarrow> json option" where
  "extractJWT json hdrs =
     (if \<not> truthy json then None
      else
        case filter truthy_opt
               [get_prop json ''jwt'',
                get_prop json ''access_token'',
                get_prop json ''token'',
                get_prop json ''id_token'',
                opt_prop (opt_prop (Some json) ''payload'') ''access_token'',
                opt_prop (opt_prop (Some json) ''payload'') ''token'',
                opt_prop (opt_prop (Some json) ''data'') ''jwt'',
                opt_prop (opt_prop (Some json) ''data'') ''access_token'',
                opt_prop (opt_prop (Some json) ''result'') ''jwt'',
                opt_prop (opt_prop (Some json) ''result'') ''token''] of
          c # cs \<Rightarrow> c
        | [] \<Rightarrow>
            (case str_or (headers_get hdrs ''Authorization'') (headers_get hdrs ''authorization'') of
               Some auth \<Rightarrow>
                 if auth \<noteq> [] \<and> str_includes (ascii_lower auth) ''bearer ''
                 then Some (JStr (last_token auth))
                 else (case str_or (headers_get hdrs ''x-access-token'')
                                   (headers_get hdrs ''X-Access-Token'') of
                         Some xToken \<Rightarrow> if xToken \<noteq> [] then Some (JStr xToken) else None
                       | None \<Rightarrow> None)
             | None \<Rightarrow>
                 (case str_or (headers_get hdrs ''x-access-token'')
                              (headers_get hdrs ''X-Access-Token'') of
                    Some xToken \<Rightarrow> if xToken \<noteq> [] then Some (JStr xToken) else None
                  | None \<Rightarrow> None)))"

text \<open>
  \<^verbatim>\<open>setCookie.split(/,(?=[^;]+;)/).map(s => s.split(';')[0]).join('; ')\<close>: the header is cut
  at every comma that is followed by at least one character other than a semicolon and
  then a semicolon; each piece is cut at its first semicolon.
\<close>

definition cookie_boundary :: "string \<Rightarrow> bool" where
  "cookie_boundary rest = (rest \<noteq> [] \<and> hd rest \<noteq> CHR '';'' \<and> CHR '';'' \<in> set rest)"

fun split_cookies :: "string \<Rightarrow> string \<Rightarrow> string list" where
  "split_cookies cur [] = [rev cur]"
| "split_cookies cur (c # rest) =
     (if c = CHR '','' \<and> cookie_boundary rest then rev cur # split_cookies [] rest
      else split_cookies (c # cur) rest)"

definition cookie_header :: "string \<Rightarrow> string" where
  "cookie_header setCookie =
     join ''; '' (map (takeWhile (\<lambda>c. c \<noteq> CHR '';'')) (split_cookies [] setCookie))"

text \<open>
  What both phases do with the body and headers of a successful response: return the
  token, return \<^verbatim>\<open>null\<close> for a cookie session, or fall through.
\<close>

datatype 'a flow = Returned 'a | Fell

definition take_credentials ::
  "auth_state \<Rightarrow> json \<Rightarrow> (string \<times> string) list \<Rightarrow> json option flow \<times> auth_state" where
  "take_credentials st json hdrs =
     (let jwtExtracted = extractJWT json hdrs;
          setCookie = headers_get hdrs ''set-cookie'';
          st1 = (case setCookie of
                   Some c \<Rightarrow> if c \<noteq> [] then st\<lparr>sessionCookie := Some (cookie_header c)\<rparr> else st
                 | None \<Rightarrow> st)
      in if truthy_opt jwtExtracted then (Returned jwtExtracted, st1\<lparr>cachedJWT := jwtExtracted\<rparr>)
         else if truthy_str (sessionCookie st1) then (Returned None, st1)
         else (Fell, st1))"

text \<open>
  The two \<^verbatim>\<open>try\<close> blocks.  A rejected \<^verbatim>\<open>fetch\<close> or \<^verbatim>\<open>res.json()\<close> is caught by the block
  and falls through to what follows it.
\<close>

definition post_phase ::
  "config \<Rightarrow> 'n fetch \<Rightarrow> auth_state \<Rightarrow> 'n \<Rightarrow> json option flow \<times> auth_state \<times> 'n" where
  "post_phase cfg fetch st n =
     (let r1 = fetch n (primary_request cfg) in
      case fst r1 of
        None \<Rightarrow> (Fell, st, snd r1)
      | Some res1 \<Rightarrow>
          let r2 = (if status res1 = 400 then fetch (snd r1) (legacy_request cfg)
                    else (Some res1, snd r1))
          in case fst r2 of
               None \<Rightarrow> (Fell, st, snd r2)
             | Some res \<Rightarrow>
                 if ok res then
                   (case json_body res of
                      None \<Rightarrow> (Fell, st, snd r2)
                    | Some json \<Rightarrow>
                        let c = take_credentials (st\<lparr>debugAuthPayload := Some json\<rparr>) json (headers res)
                        in (fst c, snd c, snd r2))
                 else (Fell, st, snd r2))"

definition basic_phase ::
  "config \<Rightarrow> 'n fetch \<Rightarrow> auth_state \<Rightarrow> 'n \<Rightarrow> json option flow \<times> auth_state \<times> 'n" where
  "basic_phase cfg fetch st n =
     (let r = fetch n (basic_request cfg) in
      case fst r of
        None \<Rightarrow> (Fell, st, snd r)
      | Some res \<Rightarrow>
          if ok res then
            (case json_body res of
               None \<Rightarrow> (Fell, st, snd r)
             | Some json \<Rightarrow>
                 let c = take_credentials
                           (st\<lparr>debugAuthPayload := js_or (debugAuthPayload st) (Some json)\<rparr>)
                           json (headers res)
                 in (fst c, snd c, snd r))
          else (Fell, st, snd r))"

definition obtainJWT ::
  "config \<Rightarrow> 'n fetch \<Rightarrow> auth_state \<Rightarrow> 'n \<Rightarrow> (js_error + json option) \<times> auth_state \<times> 'n" where
  "obtainJWT cfg fetch st n =
     (if truthy_str (presetBearer cfg)
      then (Inr (map_option JStr (presetBearer cfg)),
            st\<lparr>cachedJWT := map_option JStr (presetBearer cfg)\<rparr>, n)
      else if truthy_opt (cachedJWT st) then (Inr (cachedJWT st), st, n)
      else if attemptedAuth st \<and> truthy_str (sessionCookie st) then (Inr None, st, n)
      else if attemptedAuth st \<and> \<not> truthy_str (sessionCookie st)
      then (Inl (Error ''Auth previously failed''), st, n)
      else
        case post_phase cfg fetch (st\<lparr>attemptedAuth := True\<rparr>) n of
          (Returned v, st1, n1) \<Rightarrow> (Inr v, st1, n1)
        | (Fell, st1, n1) \<Rightarrow>
            (case basic_phase cfg fetch st1 n1 of
               (Returned v, st2, n2) \<Rightarrow> (Inr v, st2, n2)
             | (Fell, st2, n2) \<Rightarrow>
                 if truthy_str (sessionCookie st2) then (Inr None, st2, n2)
                 else (Inl (Error ''Unable to obtain JWT or session cookie from /v1/auth/''),
                       st2, n2)))"

text \<open>\<^verbatim>\<open>api(relative)\<close>: a failed authentication and a rejected request both give \<^verbatim>\<open>undefined\<close>.\<close>

definition api :: "config \<Rightarrow> 'n fetch \<Rightarrow> (auth_state \<times> 'n) api" where
  "api cfg fetch =
     (\<lambda>sn relative.
        let url = strip_slash (base cfg) @ relative in
        case obtainJWT cfg fetch (fst sn) (snd sn) of
          (Inl e, st, n) \<Rightarrow> (None, (st, n))
        | (Inr jwt, st, n) \<Rightarrow>
            let credential =
                  (if truthy_opt jwt then [(''Authorization'', ''Bearer '' @ property_key jwt)]
                   else case sessionCookie st of
                          Some c \<Rightarrow> if c \<noteq> [] then [(''Cookie'', c)] else []
                        | None \<Rightarrow> []);
                r = fetch n \<lparr>req_method = ''GET'', req_url = url,
                             req_headers = [(''Content-Type'', ''application/json''),
                                            (''Accept'', ''application/json'')] @ credential,
                             req_body = None\<rparr>
            in (fst r, (st, snd r)))"










section \<open>Properties of the observer\<close>

lemma logging_fst: "fst (logging svc (w, log) url) = fst (svc w url)"
  by (simp add: logging_def Let_def)

lemma logging_snd:
  "snd (logging svc (w, log) url) = (snd (svc w url), log @ [(url, fst (svc w url))])"
  by (simp add: logging_def Let_def)

lemma logging_apply:
  "logging f (w, log) q = (fst (f w q), (snd (f w q), log @ [(q, fst (f w q))]))"
  by (simp add: logging_def Let_def)

section \<open>Properties of the search predicate\<close>

lemma includes_iff: "str_includes hay needle \<longleftrightarrow> (\<exists>pre post. hay = pre @ needle @ post)"
proof (induction hay)
  case Nil
  then show ?case by auto
next
  case (Cons c cs)
  show ?case
  proof
    assume "str_includes (c # cs) needle"
    then consider "prefix needle (c # cs)" | "str_includes cs needle" by auto
    then show "\<exists>pre post. c # cs = pre @ needle @ post"
    proof cases
      case 1
      then obtain post where "c # cs = needle @ post" by (auto simp: prefix_def)
      then have "c # cs = [] @ needle @ post" by simp
      then show ?thesis by blast
    next
      case 2
      with Cons.IH obtain pre post where "cs = pre @ needle @ post" by blast
      then have "c # cs = (c # pre) @ needle @ post" by simp
      then show ?thesis by blast
    qed
  next
    assume "\<exists>pre post. c # cs = pre @ needle @ post"
    then obtain pre post where eq: "c # cs = pre @ needle @ post" by blast
    show "str_includes (c # cs) needle"
    proof (cases pre)
      case Nil
      with eq have "prefix needle (c # cs)" by (simp add: prefix_def)
      then show ?thesis by simp
    next
      case (Cons p ps)
      with eq have "cs = ps @ needle @ post" by simp
      with Cons.IH have "str_includes cs needle" by blast
      then show ?thesis by simp
    qed
  qed
qed

lemma visit_string_value:
  "v \<in> set (string_values r) \<Longrightarrow> str_includes (toLowerCase v) needle \<Longrightarrow>
     visit toLowerCase needle r"
proof (induction toLowerCase needle r rule: visit.induct)
  case (5 toLowerCase needle vs)
  then obtain x where "x \<in> set vs" "v \<in> set (string_values x)" by auto
  with 5 have "visit toLowerCase needle x" by blast
  with \<open>x \<in> set vs\<close> show ?case by (auto simp: list_ex_iff)
next
  case (6 toLowerCase needle kvs)
  then obtain kv where "kv \<in> set kvs" "v \<in> set (string_values (snd kv))" by auto
  with 6 have "visit toLowerCase needle (snd kv)" by blast
  with \<open>kv \<in> set kvs\<close> show ?case by (auto simp: list_ex_iff)
qed auto

text \<open>
  Claim C9.  Whatever function \<^verbatim>\<open>String.prototype.toLowerCase\<close> is (the parameter
  \<open>toLowerCase\<close>, so that the statement covers the Unicode mappings of the engine): the
  search predicate accepts every value when the query is empty; when a value \<open>r\<close> holds, at
  any depth of nested objects and arrays, a string \<open>v\<close> of whose lower-cased form the
  lower-cased query is a contiguous part, the predicate accepts \<open>r\<close>.  In particular, when
  lower-casing maps \<open>v\<close> and the query \<open>q\<close> character by character (by \<open>f\<close>, as it does
  for ASCII text with \<open>lower_char\<close>), the predicate accepts \<open>r\<close> for every \<open>q\<close> that agrees up
  to \<open>f\<close> with a contiguous part \<open>u\<close> of \<open>v\<close>.
\<close>

theorem search_empty_and_substring:
  "search toLowerCase r [] \<and>
   (v \<in> set (string_values r) \<and> toLowerCase v = pre @ toLowerCase q @ post
      \<longrightarrow> search toLowerCase r q) \<and>
   (v \<in> set (string_values r) \<and> v = pre @ u @ post \<and> map f q = map f u \<and>
    toLowerCase v = map f v \<and> toLowerCase q = map f q
      \<longrightarrow> search toLowerCase r q)"
proof -
  have part: "search toLowerCase r q"
    if h: "v \<in> set (string_values r)" "toLowerCase v = a @ toLowerCase q @ b" for a b
  proof -
    from h have "str_includes (toLowerCase v) (toLowerCase q)"
      unfolding includes_iff by blast
    with h have "visit toLowerCase (toLowerCase q) r" by (blast intro: visit_string_value)
    then show ?thesis by (simp add: search_def)
  qed
  have "search toLowerCase r []" by (simp add: search_def)
  moreover have "v \<in> set (string_values r) \<and> toLowerCase v = pre @ toLowerCase q @ post
      \<longrightarrow> search toLowerCase r q"
    using part by blast
  moreover have "v \<in> set (string_values r) \<and> v = pre @ u @ post \<and> map f q = map f u \<and>
      toLowerCase v = map f v \<and> toLowerCase q = map f q \<longrightarrow> search toLowerCase r q"
  proof
    assume h: "v \<in> set (string_values r) \<and> v = pre @ u @ post \<and> map f q = map f u \<and>
      toLowerCase v = map f v \<and> toLowerCase q = map f q"
    from h have "toLowerCase v = map f v" and "v = pre @ u @ post"
      and "toLowerCase q = map f u"
      by metis+
    then have "toLowerCase v = map f pre @ toLowerCase q @ map f post"
      by (simp only: map_append)
    with h show "search toLowerCase r q" using part by blast
  qed
  ultimately show ?thesis by blast
qed

theorem search_empty_and_substring_witness:
  "search ascii_lower (JObj [(''a'', JArr [JNum 3, JObj [(''n'', JStr ''Hello World'')]])]) [] \<and>
   ''Hello World'' \<in> set (string_values
      (JObj [(''a'', JArr [JNum 3, JObj [(''n'', JStr ''Hello World'')]])])) \<and>
   ascii_lower ''Hello World'' = ''hel'' @ ascii_lower ''LO wo'' @ ''rld'' \<and>
   search ascii_lower (JObj [(''a'', JArr [JNum 3, JObj [(''n'', JStr ''Hello World'')]])])
     ''LO wo'' \<and>
   ''Hello World'' = ''Hello '' @ ''World'' @ [] \<and>
   map lower_char ''WORLD'' = map lower_char ''World'' \<and>
   ascii_lower ''Hello World'' = map lower_char ''Hello World'' \<and>
   ascii_lower ''WORLD'' = map lower_char ''WORLD'' \<and>
   search ascii_lower (JObj [(''a'', JArr [JNum 3, JObj [(''n'', JStr ''Hello World'')]])])
     ''WORLD''"
proof -
  let ?r = "JObj [(''a'', JArr [JNum 3, JObj [(''n'', JStr ''Hello World'')]])]"
  have h: "''Hello World'' \<in> set (string_values ?r) \<and>
    ascii_lower ''Hello World'' = ''hel'' @ ascii_lower ''LO wo'' @ ''rld'' \<and>
    ''Hello World'' = ''Hello '' @ ''World'' @ [] \<and>
    map lower_char ''WORLD'' = map lower_char ''World''"
    by code_simp
  have g: "ascii_lower ''Hello World'' = map lower_char ''Hello World'' \<and>
      ascii_lower ''WORLD'' = map lower_char ''WORLD''"
    by (simp add: ascii_lower_def)
  from search_empty_and_substring
    [where toLowerCase = ascii_lower and r = ?r
       and v = "''Hello World''" and pre = "''hel''" and q = "''LO wo''" and post = "''rld''"] h
  have a: "search ascii_lower ?r [] \<and> search ascii_lower ?r ''LO wo''"
    by blast
  from search_empty_and_substring
    [where toLowerCase = ascii_lower and f = lower_char and r = ?r
       and v = "''Hello World''" and pre = "''Hello ''" and q = "''WORLD''" and post = "[]"
       and u = "''World''"] h g
  have b: "search ascii_lower ?r ''WORLD''"
    by blast
  from a b h g show ?thesis by blast
qed

text \<open>
  Claim C9 does not hold of every query that is a contiguous part of a string of the
  record: the capital sigma is the last letter of the word \<open>greek_chaos\<close>, yet the
  predicate rejects it, because the word is lower-cased with a final sigma and the query
  with an ordinary one.
\<close>

theorem search_final_sigma:
  "greek_chaos = [CHR 0xCE, CHR 0xA7, CHR 0xCE, CHR 0x91, CHR 0xCE, CHR 0x9F] @ capital_sigma @ [] \<and>
   search toLowerCase_at_sigma (JObj [(''s'', JStr greek_chaos)]) capital_sigma = False"
  by code_simp

section \<open>Properties of the field flattening\<close>

lemma pushRow_path: "(p, v) \<in> set (pushRow q w) \<Longrightarrow> p \<noteq> ''params'' \<and> p \<noteq> ''query_context''"
  by (auto simp: pushRow_def split: if_splits)

lemma walk_never_bare:
  "(p, v) \<in> set (walk r pfx) \<Longrightarrow> p \<noteq> ''params'' \<and> p \<noteq> ''query_context''"
proof (induction r pfx arbitrary: p v rule: walk.induct)
  case (1 kvs pfx)
  from "1.prems" obtain kv where kv: "kv \<in> set kvs"
    and mem: "(p, v) \<in> set (let k = fst kv; v = snd kv; path = pfx @ k in
        if is_plain_object v \<and> \<not> (k = ''params'' \<or> k = ''query_context'')
        then pushRow path v @ walk v (path @ ''.'')
        else pushRow path v)"
    by auto
  show ?case
  proof (cases "is_plain_object (snd kv) \<and> \<not> (fst kv = ''params'' \<or> fst kv = ''query_context'')")
    case True
    with mem have "(p, v) \<in> set (pushRow (pfx @ fst kv) (snd kv))
        \<or> (p, v) \<in> set (walk (snd kv) ((pfx @ fst kv) @ ''.''))"
      by (auto simp: Let_def)
    then show ?thesis
    proof
      assume "(p, v) \<in> set (pushRow (pfx @ fst kv) (snd kv))"
      then show ?thesis by (rule pushRow_path)
    next
      assume "(p, v) \<in> set (walk (snd kv) ((pfx @ fst kv) @ ''.''))"
      with "1.IH" [OF kv refl refl refl True] show ?thesis by blast
    qed
  next
    case False
    with mem have "(p, v) \<in> set (pushRow (pfx @ fst kv) (snd kv))"
      by (auto simp: Let_def)
    then show ?thesis by (rule pushRow_path)
  qed
qed (auto dest: pushRow_path)

lemma dot_not_bare: "CHR ''.'' \<in> set p \<Longrightarrow> p \<noteq> ''params'' \<and> p \<noteq> ''query_context''"
  by auto

lemma walk_entry_row:
  assumes "(k, v) \<in> set kvs" "pfx @ k \<noteq> ''params''" "pfx @ k \<noteq> ''query_context''"
  shows "(pfx @ k, v) \<in> set (walk (JObj kvs) pfx)"
  using assms by (force simp: Let_def pushRow_def)

lemma walk_enters:
  assumes "(k, JObj inner) \<in> set kvs" "k \<noteq> ''params''" "k \<noteq> ''query_context''"
  shows "set (walk (JObj inner) (pfx @ k @ ''.'')) \<subseteq> set (walk (JObj kvs) pfx)"
proof
  fix x assume "x \<in> set (walk (JObj inner) (pfx @ k @ ''.''))"
  then have x: "x \<in> set (pushRow (pfx @ k) (JObj inner) @ walk (JObj inner) ((pfx @ k) @ ''.''))"
    by (simp del: walk.simps)
  have eq: "set (walk (JObj kvs) pfx) = (\<Union>kv \<in> set kvs. set (let k = fst kv; v = snd kv; path = pfx @ k in
        if is_plain_object v \<and> \<not> (k = ''params'' \<or> k = ''query_context'')
        then pushRow path v @ walk v (path @ ''.'')
        else pushRow path v))"
    by simp
  show "x \<in> set (walk (JObj kvs) pfx)"
    unfolding eq using assms x
    by (intro UN_I [where a = "(k, JObj inner)"]) (simp_all del: walk.simps add: Let_def)
qed

lemma dotted_Cons: "ks \<noteq> [] \<Longrightarrow> dotted (k # ks) = k @ ''.'' @ dotted ks"
  by (cases ks) auto

lemma dotted_has_dot: "anc \<noteq> [] \<Longrightarrow> CHR ''.'' \<in> set (dotted (anc @ [k]))"
  by (cases anc) (auto simp: dotted_Cons)

lemma walk_descend:
  "descend (JObj kvs) (anc @ [k]) = Some v \<Longrightarrow>
   \<forall>a \<in> set anc. a \<noteq> ''params'' \<and> a \<noteq> ''query_context'' \<Longrightarrow>
   pfx @ dotted (anc @ [k]) \<noteq> ''params'' \<Longrightarrow> pfx @ dotted (anc @ [k]) \<noteq> ''query_context'' \<Longrightarrow>
   (pfx @ dotted (anc @ [k]), v) \<in> set (walk (JObj kvs) pfx)"
proof (induction anc arbitrary: kvs pfx)
  case Nil
  then have "(k, v) \<in> set kvs" by (auto split: option.splits dest: map_of_SomeD)
  with Nil show ?case using walk_entry_row [of k v kvs pfx] by simp
next
  case (Cons a anc)
  from Cons.prems(1) obtain w where w: "map_of kvs a = Some w" and d: "descend w (anc @ [k]) = Some v"
    by (auto split: option.splits)
  from d obtain inner where inner: "w = JObj inner" by (cases w; cases anc) auto
  from w inner have mem: "(a, JObj inner) \<in> set kvs" by (auto dest: map_of_SomeD)
  have eq: "pfx @ dotted ((a # anc) @ [k]) = (pfx @ a @ ''.'') @ dotted (anc @ [k])"
    by (simp add: dotted_Cons)
  from Cons.prems have "((pfx @ a @ ''.'') @ dotted (anc @ [k]), v) \<in> set (walk (JObj inner) (pfx @ a @ ''.''))"
    using d inner eq by (intro Cons.IH) auto
  moreover from Cons.prems(2) have "a \<noteq> ''params''" "a \<noteq> ''query_context''" by auto
  ultimately show ?case using walk_enters [OF mem, of pfx] eq by auto
qed

text \<open>
  Claim C1, as the code has it.  Flattening the example record gives rows for exactly the
  paths \<open>a\<close>, \<open>a.b\<close>, \<open>details\<close> and \<open>details.params\<close>, in this order: the bare path
  \<open>params\<close> is absent, and so is \<open>details.params.y\<close>, because a value stored under a key
  named \<open>params\<close> or \<open>query_context\<close> is never recursed into, at any depth.  For every
  record, no row has the bare path \<open>params\<close> or \<open>query_context\<close>; and a value reached
  through a non-empty chain of ancestor keys none of which is named \<open>params\<close> or
  \<open>query_context\<close> has a row at its dotted path, whatever its own key is (so nested
  \<open>params\<close> and \<open>query_context\<close> keys are shown).
\<close>

theorem walk_flattening:
  "map fst (walk example_log []) = [''a'', ''a.b'', ''details'', ''details.params''] \<and>
   ''params'' \<notin> fst ` set (walk (JObj log) []) \<and>
   ''query_context'' \<notin> fst ` set (walk (JObj log) []) \<and>
   (anc \<noteq> [] \<and> (\<forall>a \<in> set anc. a \<noteq> ''params'' \<and> a \<noteq> ''query_context'') \<and>
    descend (JObj log) (anc @ [k]) = Some v
      \<longrightarrow> (dotted (anc @ [k]), v) \<in> set (walk (JObj log) []))"
proof (intro conjI impI)
  show "map fst (walk example_log []) = [''a'', ''a.b'', ''details'', ''details.params'']"
    by (simp add: example_log_def pushRow_def)
next
  show "''params'' \<notin> fst ` set (walk (JObj log) [])"
    using walk_never_bare [of "''params''" _ "JObj log" "[]"] by fastforce
next
  show "''query_context'' \<notin> fst ` set (walk (JObj log) [])"
    using walk_never_bare [of "''query_context''" _ "JObj log" "[]"] by fastforce
next
  assume h: "anc \<noteq> [] \<and> (\<forall>a \<in> set anc. a \<noteq> ''params'' \<and> a \<noteq> ''query_context'') \<and>
    descend (JObj log) (anc @ [k]) = Some v"
  then have "CHR ''.'' \<in> set (dotted (anc @ [k]))" by (simp add: dotted_has_dot)
  then have "dotted (anc @ [k]) \<noteq> ''params'' \<and> dotted (anc @ [k]) \<noteq> ''query_context''"
    by (rule dot_not_bare)
  with h show "(dotted (anc @ [k]), v) \<in> set (walk (JObj log) [])"
    using walk_descend [of log anc k v "[]"] by simp
qed

text \<open>
  The row \<open>details.params.y\<close> that the specification expects for the example record is
  not produced.
\<close>

theorem walk_nested_params_not_entered:
  "''details.params.y'' \<notin> fst ` set (walk example_log [])"
  by (simp add: example_log_def pushRow_def)

theorem walk_flattening_witness:
  "[''details''] \<noteq> [] \<and> list_all (\<lambda>a. a \<noteq> ''params'' \<and> a \<noteq> ''query_context'') [''details''] \<and>
   descend example_log ([''details''] @ [''params'']) = Some (JObj [(''y'', JNum 2)]) \<and>
   (dotted ([''details''] @ [''params'']), JObj [(''y'', JNum 2)]) \<in> set (walk example_log [])"
proof -
  have h: "[''details''] \<noteq> [] \<and> (\<forall>a \<in> set [''details'']. a \<noteq> ''params'' \<and> a \<noteq> ''query_context'') \<and>
    descend (JObj [(''a'', JObj [(''b'', JNum 1)]), (''params'', JObj [(''x'', JNum 1)]),
     (''details'', JObj [(''params'', JObj [(''y'', JNum 2)])])]) ([''details''] @ [''params'']) = Some (JObj [(''y'', JNum 2)])"
    by simp
  from walk_flattening [of "[(''a'', JObj [(''b'', JNum 1)]), (''params'', JObj [(''x'', JNum 1)]),
     (''details'', JObj [(''params'', JObj [(''y'', JNum 2)])])]" "[''details'']" "''params''" "JObj [(''y'', JNum 2)]"] h
  show ?thesis unfolding example_log_def by simp
qed

section \<open>Properties of the analytics filter\<close>

text \<open>
  Claim C2 at a record that has neither \<open>workspace_title\<close> nor \<open>workspace_name\<close>.  The
  list of selectable workspaces offers \<open>unknown\<close> for it (whatever the lower-casing and
  the collation of the engine), but under that selection the
  filter drops the record, whatever the time range: the filter defaults the missing
  workspace to \<open>Unknown\<close>, and keeps the record only under that spelling (or \<open>ALL\<close>).
\<close>

theorem unknown_selection_drops_record:
  "workspaces toLowerCase localeCompare [[(''action'', JStr ''chart:view'')]] = Inr [''ALL'', ''unknown''] \<and>
   filtered toLowerCase now Date_parse [[(''action'', JStr ''chart:view'')]] ''unknown'' [] rng = [] \<and>
   filtered toLowerCase now Date_parse [[(''action'', JStr ''chart:view'')]] ''Unknown'' [] rng
     = [[(''action'', JStr ''chart:view'')]]"
proof (intro conjI)
  have found: "collect_titles [] [[(''action'', JStr ''chart:view'')]] = Inr [''unknown'']"
    by code_simp
  show "workspaces toLowerCase localeCompare [[(''action'', JStr ''chart:view'')]]
      = Inr [''ALL'', ''unknown'']"
    unfolding workspaces_def found
    by (simp add: place_desired_def desiredOrder_def sort_cmp_def)
next
  show "filtered toLowerCase now Date_parse [[(''action'', JStr ''chart:view'')]] ''unknown'' [] rng = []"
    by (simp add: filtered_def keep_def workspace_rejects_def fld_def js_or_def)
next
  show "filtered toLowerCase now Date_parse [[(''action'', JStr ''chart:view'')]] ''Unknown'' [] rng
      = [[(''action'', JStr ''chart:view'')]]"
    by (simp add: filtered_def keep_def workspace_rejects_def query_rejects_def fld_def js_or_def
        timestamp_of_def)
qed

text \<open>
  Claim C5.  A record of the log whose timestamp parses to the moment 8 days before \<open>now\<close>
  is absent from the result under \<open>Week\<close>, and under \<open>Month\<close> it is present exactly when
  the workspace and query conditions let it pass.  A record whose timestamp is missing,
  falsy or unparseable is, under every range, present exactly when the workspace and query
  conditions let it pass: the time range never excludes it.
\<close>

theorem time_range_filter:
  "(l \<in> set logs \<and> fld l ''timestamp'' = Some t \<and> truthy t \<and>
      Date_parse t = Some (now - 8 * 24 * 3600 * 1000) \<longrightarrow>
      l \<notin> set (filtered toLowerCase now Date_parse logs workspace query Week) \<and>
      (l \<in> set (filtered toLowerCase now Date_parse logs workspace query Month)
         \<longleftrightarrow> \<not> workspace_rejects workspace l \<and> \<not> query_rejects toLowerCase query l)) \<and>
   (l \<in> set logs \<and>
      (fld l ''timestamp'' = None \<or>
       (\<exists>t. fld l ''timestamp'' = Some t \<and> (\<not> truthy t \<or> Date_parse t = None))) \<longrightarrow>
      (l \<in> set (filtered toLowerCase now Date_parse logs workspace query rng)
         \<longleftrightarrow> \<not> workspace_rejects workspace l \<and> \<not> query_rejects toLowerCase query l))"
  by (auto simp: filtered_def keep_def timestamp_of_def rangeMs_def)

theorem time_range_filter_witness:
  "[(''timestamp'', JStr ''2024-01-01T00:00:00Z'')] \<in>
      set [[(''timestamp'', JStr ''2024-01-01T00:00:00Z'')], [(''timestamp'', JStr ''soon'')]] \<and>
   fld [(''timestamp'', JStr ''2024-01-01T00:00:00Z'')] ''timestamp''
      = Some (JStr ''2024-01-01T00:00:00Z'') \<and>
   truthy (JStr ''2024-01-01T00:00:00Z'') \<and>
   (\<lambda>v. if v = JStr ''2024-01-01T00:00:00Z'' then Some (1704067200000 :: int) else None)
      (JStr ''2024-01-01T00:00:00Z'') = Some (1704758400000 - 8 * 24 * 3600 * 1000) \<and>
   [(''timestamp'', JStr ''2024-01-01T00:00:00Z'')] \<notin>
      set (filtered ascii_lower 1704758400000
            (\<lambda>v. if v = JStr ''2024-01-01T00:00:00Z'' then Some 1704067200000 else None)
            [[(''timestamp'', JStr ''2024-01-01T00:00:00Z'')], [(''timestamp'', JStr ''soon'')]]
            ''ALL'' [] Week) \<and>
   [(''timestamp'', JStr ''2024-01-01T00:00:00Z'')] \<in>
      set (filtered ascii_lower 1704758400000
            (\<lambda>v. if v = JStr ''2024-01-01T00:00:00Z'' then Some 1704067200000 else None)
            [[(''timestamp'', JStr ''2024-01-01T00:00:00Z'')], [(''timestamp'', JStr ''soon'')]]
            ''ALL'' [] Month) \<and>
   [(''timestamp'', JStr ''soon'')] \<in>
      set [[(''timestamp'', JStr ''2024-01-01T00:00:00Z'')], [(''timestamp'', JStr ''soon'')]] \<and>
   fld [(''timestamp'', JStr ''soon'')] ''timestamp'' = Some (JStr ''soon'') \<and>
   (\<lambda>v. if v = JStr ''2024-01-01T00:00:00Z'' then Some 1704067200000 else None)
      (JStr ''soon'') = (None :: int option) \<and>
   [(''timestamp'', JStr ''soon'')] \<in>
      set (filtered ascii_lower 1704758400000
            (\<lambda>v. if v = JStr ''2024-01-01T00:00:00Z'' then Some 1704067200000 else None)
            [[(''timestamp'', JStr ''2024-01-01T00:00:00Z'')], [(''timestamp'', JStr ''soon'')]]
            ''ALL'' [] Week)"
proof -
  let ?P = "\<lambda>v. if v = JStr ''2024-01-01T00:00:00Z'' then Some (1704067200000 :: int) else None"
  let ?l1 = "[(''timestamp'', JStr ''2024-01-01T00:00:00Z'')]"
  let ?l2 = "[(''timestamp'', JStr ''soon'')]"
  have h1: "?l1 \<in> set [?l1, ?l2] \<and> fld ?l1 ''timestamp'' = Some (JStr ''2024-01-01T00:00:00Z'') \<and>
      truthy (JStr ''2024-01-01T00:00:00Z'') \<and>
      ?P (JStr ''2024-01-01T00:00:00Z'') = Some (1704758400000 - 8 * 24 * 3600 * 1000)"
    by (simp add: fld_def)
  have h2: "?l2 \<in> set [?l1, ?l2] \<and>
      (fld ?l2 ''timestamp'' = None \<or>
       (\<exists>t. fld ?l2 ''timestamp'' = Some t \<and> (\<not> truthy t \<or> ?P t = None)))"
    by (simp add: fld_def)
  have ok: "\<not> workspace_rejects ''ALL'' ?l1 \<and> \<not> query_rejects ascii_lower [] ?l1 \<and>
      \<not> workspace_rejects ''ALL'' ?l2 \<and> \<not> query_rejects ascii_lower [] ?l2"
    by (simp add: workspace_rejects_def query_rejects_def)
  have f2: "fld ?l2 ''timestamp'' = Some (JStr ''soon'') \<and> ?P (JStr ''soon'') = None"
    by (simp add: fld_def)
  from time_range_filter
         [where l = ?l1 and logs = "[?l1, ?l2]" and t = "JStr ''2024-01-01T00:00:00Z''"
            and Date_parse = ?P and now = 1704758400000 and toLowerCase = ascii_lower
            and workspace = "''ALL''" and query = "[]" and rng = Week]
       h1 ok
  have a: "?l1 \<notin> set (filtered ascii_lower 1704758400000 ?P [?l1, ?l2] ''ALL'' [] Week) \<and>
           ?l1 \<in> set (filtered ascii_lower 1704758400000 ?P [?l1, ?l2] ''ALL'' [] Month)"
    by blast
  from time_range_filter
         [where l = ?l2 and logs = "[?l1, ?l2]" and t = "JStr ''soon''"
            and Date_parse = ?P and now = 1704758400000 and toLowerCase = ascii_lower
            and workspace = "''ALL''" and query = "[]" and rng = Week]
       h2 ok
  have b: "?l2 \<in> set (filtered ascii_lower 1704758400000 ?P [?l1, ?l2] ''ALL'' [] Week)"
    by blast
  from a b h1 h2 f2 show ?thesis by blast
qed

section \<open>Properties of the aggregation\<close>

lemma insort_cmp_key:
  "insort_cmp (\<lambda>a b. int (bar_value b) - int (bar_value a)) x ys
     = insort_key (\<lambda>d. - int (bar_value d)) x ys"
  by (induction ys) auto

lemma sort_cmp_key:
  "sort_cmp (\<lambda>a b. int (bar_value b) - int (bar_value a)) xs
     = sort_key (\<lambda>d. - int (bar_value d)) xs"
  by (induction xs) (auto simp: sort_cmp_def sort_key_def insort_cmp_key)

lemma toSorted_descending: "descending (toSorted m)"
proof -
  have "sorted (map (\<lambda>d. - int (bar_value d)) (toSorted m))"
    by (simp add: toSorted_def sort_cmp_key)
  then show ?thesis
    by (simp add: descending_def sorted_map sorted_wrt_iff_nth_less) 
qed

lemma toSorted_ties:
  "filter (\<lambda>d. bar_value d = c) (toSorted m)
     = filter (\<lambda>d. bar_value d = c) (map (\<lambda>e. \<lparr>label = fst e, bar_value = snd e\<rparr>) (Object_entries m))"
proof -
  have "filter (\<lambda>d. - int (bar_value d) = - int c)
          (sort_key (\<lambda>d. - int (bar_value d))
             (map (\<lambda>e. \<lparr>label = fst e, bar_value = snd e\<rparr>) (Object_entries m)))
      = filter (\<lambda>d. - int (bar_value d) = - int c)
          (map (\<lambda>e. \<lparr>label = fst e, bar_value = snd e\<rparr>) (Object_entries m))"
    by (rule sort_key_stable)
  then show ?thesis
    by (simp add: toSorted_def sort_cmp_key)
qed

lemma set_first_seen [simp]: "set (first_seen xs) = set xs"
  by (induction xs) auto

lemma distinct_first_seen [simp]: "distinct (first_seen xs)"
  by (induction xs) auto

lemma first_seen_snoc:
  "first_seen (xs @ [x]) = (if x \<in> set xs then first_seen xs else first_seen xs @ [x])"
  by (induction xs) auto

lemma map_of_tabulate: "map_of (map (\<lambda>x. (x, g x)) xs) k = (if k \<in> set xs then Some (g k) else None)"
  by (induction xs) auto

lemma put_tabulate:
  "distinct xs \<Longrightarrow> put (map (\<lambda>x. (x, g x)) xs) k v =
     (if k \<in> set xs then map (\<lambda>x. (x, if x = k then v else g x)) xs
      else map (\<lambda>x. (x, g x)) xs @ [(k, v)])"
  by (induction xs) auto

lemma foldl_bump_tabulate:
  "foldl bump [] ks = map (\<lambda>k. (k, count_list ks k)) (first_seen ks)"
proof (induction ks rule: rev_induct)
  case Nil
  then show ?case by simp
next
  case (snoc k ks)
  have "foldl bump [] (ks @ [k]) = bump (foldl bump [] ks) k" by simp
  also have "\<dots> = bump (map (\<lambda>k. (k, count_list ks k)) (first_seen ks)) k"
    by (simp only: snoc.IH)
  also have "\<dots> = map (\<lambda>x. (x, count_list (ks @ [k]) x)) (first_seen (ks @ [k]))"
    by (auto simp: bump_def map_of_tabulate put_tabulate first_seen_snoc)
  finally show ?case .
qed


lemma foldl_tally_chart:
  "chartMap (foldl tally s logs) = foldl bump (chartMap s) (chart_labels logs)"
  by (induction logs arbitrary: s) (simp_all add: chart_labels_def tally_def Let_def)

lemma foldl_tally_dash:
  "dashMap (foldl tally s logs) = foldl bump (dashMap s) (dash_labels logs)"
  by (induction logs arbitrary: s) (simp_all add: dash_labels_def tally_def Let_def)

lemma foldl_tally_user:
  "userMap (foldl tally s logs) = foldl bump (userMap s) (user_labels logs)"
  by (induction logs arbitrary: s) (simp_all add: user_labels_def tally_def Let_def)

lemma foldl_tally_action:
  "actionMap (foldl tally s logs) = foldl bump (actionMap s) (action_labels logs)"
  by (induction logs arbitrary: s) (simp_all add: action_labels_def tally_def Let_def)

lemma toSorted_Nil: "toSorted [] = []"
  by (simp add: toSorted_def Object_entries_def sort_cmp_def)

lemma metrics_series:
  "chartViews (metrics logs) = toSorted (foldl bump [] (chart_labels logs))"
  "dashboardViews (metrics logs) = toSorted (foldl bump [] (dash_labels logs))"
  "activeUsers (metrics logs) = toSorted (foldl bump [] (user_labels logs))"
  "actionCounts (metrics logs) = toSorted (foldl bump [] (action_labels logs))"
  by (simp_all add: metrics_def Let_def foldl_tally_chart foldl_tally_dash foldl_tally_user
      foldl_tally_action toSorted_Nil chart_labels_def dash_labels_def user_labels_def
      action_labels_def)

lemma insort_key_tabulate:
  "insort_key (\<lambda>e. h (fst e)) (k, g k) (map (\<lambda>x. (x, g x)) xs)
     = map (\<lambda>x. (x, g x)) (insort_key h k xs)"
  by (induction xs) auto

lemma sort_key_tabulate:
  "sort_key (\<lambda>e. h (fst e)) (map (\<lambda>x. (x, g x)) xs) = map (\<lambda>x. (x, g x)) (sort_key h xs)"
  by (induction xs) (auto simp: insort_key_tabulate)

lemma Object_entries_tabulate:
  "Object_entries (map (\<lambda>k. (k, count_list ks k)) (first_seen ks))
     = map (\<lambda>k. (k, count_list ks k)) (key_order ks)"
  by (simp add: Object_entries_def key_order_def filter_map comp_def sort_key_tabulate)

lemma ties_key_order:
  "tie_group c (toSorted (foldl bump [] ks)) = labels_with_count c ks"
proof -
  have "tie_group c (toSorted (foldl bump [] ks))
      = map label (filter (\<lambda>d. bar_value d = c)
          (map (\<lambda>e. \<lparr>label = fst e, bar_value = snd e\<rparr>)
             (map (\<lambda>k. (k, count_list ks k)) (key_order ks))))"
    by (simp only: tie_group_def toSorted_ties foldl_bump_tabulate Object_entries_tabulate)
  also have "\<dots> = labels_with_count c ks"
    by (simp add: labels_with_count_def filter_map comp_def)
  finally show ?thesis .
qed

lemma key_order_plain:
  "\<forall>k \<in> set ks. \<not> is_array_index k \<Longrightarrow> key_order ks = first_seen ks"
  by (simp add: key_order_def filter_empty_conv)

text \<open>
  Claim C6, as the code has it.  For the three chart views of the example, \<open>chartViews\<close> is
  \<open>A\<close> with 2 followed by \<open>B\<close> with 1.  Each of the four series, provided that no label
  counted into it names a member inherited from \<^verbatim>\<open>Object.prototype\<close>, is sorted by
  descending count, and its labels that share a count \<open>c\<close> appear in the order in which
  the counting object enumerates them: labels that are array indices first, by ascending
  number, then the other labels by first occurrence.  When no label of a stream is an
  array index this is the order of first occurrence.
\<close>

theorem metrics_ranking:
  "chartViews (metrics example_views)
     = [\<lparr>label = ''A'', bar_value = 2\<rparr>, \<lparr>label = ''B'', bar_value = 1\<rparr>] \<and>
   (set (chart_labels logs) \<inter> set inherited_names = {} \<longrightarrow>
      descending (chartViews (metrics logs)) \<and>
      tie_group c (chartViews (metrics logs)) = labels_with_count c (chart_labels logs)) \<and>
   (set (dash_labels logs) \<inter> set inherited_names = {} \<longrightarrow>
      descending (dashboardViews (metrics logs)) \<and>
      tie_group c (dashboardViews (metrics logs)) = labels_with_count c (dash_labels logs)) \<and>
   (set (user_labels logs) \<inter> set inherited_names = {} \<longrightarrow>
      descending (activeUsers (metrics logs)) \<and>
      tie_group c (activeUsers (metrics logs)) = labels_with_count c (user_labels logs)) \<and>
   (set (action_labels logs) \<inter> set inherited_names = {} \<longrightarrow>
      descending (actionCounts (metrics logs)) \<and>
      tie_group c (actionCounts (metrics logs)) = labels_with_count c (action_labels logs)) \<and>
   ((\<forall>k \<in> set ks. \<not> is_array_index k) \<longrightarrow> key_order ks = first_seen ks)"
proof -
  have ex: "chartViews (metrics example_views)
      = [\<lparr>label = ''A'', bar_value = 2\<rparr>, \<lparr>label = ''B'', bar_value = 1\<rparr>]"
    by code_simp
  show ?thesis
    unfolding metrics_series
    using ex [unfolded metrics_series]
    by (simp add: toSorted_descending ties_key_order key_order_plain)
qed

theorem metrics_ranking_witness:
  "chart_labels ranked_views = [''A'', ''B'', ''C'', ''B''] \<and>
   set (chart_labels ranked_views) \<inter> set inherited_names = {} \<and>
   list_all (\<lambda>k. \<not> is_array_index k) (chart_labels ranked_views) \<and>
   chartViews (metrics ranked_views)
     = [\<lparr>label = ''B'', bar_value = 2\<rparr>, \<lparr>label = ''A'', bar_value = 1\<rparr>,
        \<lparr>label = ''C'', bar_value = 1\<rparr>] \<and>
   descending (chartViews (metrics ranked_views)) \<and>
   tie_group 1 (chartViews (metrics ranked_views)) = [''A'', ''C''] \<and>
   user_labels ranked_views = [''ann'', ''Unknown'', ''ann'', ''bob@x''] \<and>
   set (user_labels ranked_views) \<inter> set inherited_names = {} \<and>
   descending (activeUsers (metrics ranked_views)) \<and>
   tie_group 1 (activeUsers (metrics ranked_views)) = [''Unknown'', ''bob@x''] \<and>
   set (dash_labels ranked_views) \<inter> set inherited_names = {} \<and>
   tie_group 1 (dashboardViews (metrics ranked_views)) = [] \<and>
   set (action_labels ranked_views) \<inter> set inherited_names = {} \<and>
   tie_group 4 (actionCounts (metrics ranked_views)) = [''chart:view'']"
proof -
  have l: "chart_labels ranked_views = [''A'', ''B'', ''C'', ''B'']"
      "user_labels ranked_views = [''ann'', ''Unknown'', ''ann'', ''bob@x'']"
      "dash_labels ranked_views = []"
      "action_labels ranked_views = [''chart:view'', ''chart:view'', ''chart:view'', ''chart:view'']"
    by code_simp+
  have own: "set (chart_labels ranked_views) \<inter> set inherited_names = {}"
      "set (user_labels ranked_views) \<inter> set inherited_names = {}"
      "set (dash_labels ranked_views) \<inter> set inherited_names = {}"
      "set (action_labels ranked_views) \<inter> set inherited_names = {}"
    unfolding l by (simp_all add: inherited_names_def)
  have h: "\<forall>k \<in> set (chart_labels ranked_views). \<not> is_array_index k"
    unfolding l by code_simp
  have v: "chartViews (metrics ranked_views)
      = [\<lparr>label = ''B'', bar_value = 2\<rparr>, \<lparr>label = ''A'', bar_value = 1\<rparr>,
         \<lparr>label = ''C'', bar_value = 1\<rparr>]"
    by code_simp
  have t: "labels_with_count 1 (chart_labels ranked_views) = [''A'', ''C'']"
      "labels_with_count 1 (user_labels ranked_views) = [''Unknown'', ''bob@x'']"
      "labels_with_count 1 (dash_labels ranked_views) = []"
      "labels_with_count 4 (action_labels ranked_views) = [''chart:view'']"
    unfolding l by code_simp+
  from metrics_ranking [where logs = ranked_views and c = 1 and ks = "chart_labels ranked_views"]
    own h t
  have a: "descending (chartViews (metrics ranked_views)) \<and>
      tie_group 1 (chartViews (metrics ranked_views)) = [''A'', ''C''] \<and>
      descending (activeUsers (metrics ranked_views)) \<and>
      tie_group 1 (activeUsers (metrics ranked_views)) = [''Unknown'', ''bob@x''] \<and>
      tie_group 1 (dashboardViews (metrics ranked_views)) = []"
    by simp
  from metrics_ranking [where logs = ranked_views and c = 4 and ks = "chart_labels ranked_views"]
    own h t
  have b: "tie_group 4 (actionCounts (metrics ranked_views)) = [''chart:view'']"
    by simp
  from l own h v a b show ?thesis
    by (simp add: list_all_iff)
qed

text \<open>
  Two chart views, of \<open>b\<close> and then of \<open>1\<close>, tie with one view each, and the series lists
  \<open>1\<close> before \<open>b\<close>, against the order of first occurrence.
\<close>

theorem metrics_index_labels_first:
  "chartViews (metrics
      [[(''action'', JStr ''chart:view''), (''entity_name'', JStr ''b'')],
       [(''action'', JStr ''chart:view''), (''entity_name'', JStr ''1'')]])
   = [\<lparr>label = ''1'', bar_value = 1\<rparr>, \<lparr>label = ''b'', bar_value = 1\<rparr>]"
  by code_simp

section \<open>Properties of the derived user list\<close>
















section \<open>Properties of the pagination loop\<close>

lemma page_body_Next_le: "page_body pageSize page out res = Next out' \<Longrightarrow> page \<le> 50"
  by (auto simp: page_body_def Let_def split: option.splits if_splits)

lemma page_body_Next_full: "page_body pageSize page out res = Next out' \<Longrightarrow> is_full_page pageSize res"
  by (auto simp: page_body_def is_full_page_def Let_def split: option.splits if_splits)

lemma paginate_log:
  "page0 \<le> 50 \<Longrightarrow>
   \<exists>new. snd (snd (paginate (logging svc) endpoint pageSize page0 out (w, log))) = log @ new \<and>
     new \<noteq> [] \<and> length new \<le> 51 - page0 \<and>
     map fst new = map (\<lambda>p. paged_url endpoint p pageSize) [Suc page0 ..< Suc page0 + length new] \<and>
     list_all (is_full_page pageSize) (butlast (map snd new))"
proof (induction "logging svc" endpoint pageSize page0 out "(w, log)" arbitrary: w log
    rule: paginate.induct)
  case (1 endpoint pageSize page0 out w log)
  let ?url = "paged_url endpoint (page0 + 1) pageSize"
  let ?r = "fst (svc w ?url)"
  let ?w = "snd (svc w ?url)"
  let ?log = "log @ [(?url, ?r)]"
  show ?case
  proof (cases "page_body pageSize (page0 + 1) out ?r")
    case (Throw e)
    then have "snd (snd (paginate (logging svc) endpoint pageSize page0 out (w, log))) = log @ [(?url, ?r)]"
      by (subst paginate.simps) (simp add: Let_def logging_fst logging_snd)
    moreover from "1.prems" have "length [(?url, ?r)] \<le> 51 - page0" by simp
    ultimately show ?thesis by (intro exI [of _ "[(?url, ?r)]"]) simp
  next
    case (Break out')
    then have "snd (snd (paginate (logging svc) endpoint pageSize page0 out (w, log))) = log @ [(?url, ?r)]"
      by (subst paginate.simps) (simp add: Let_def logging_fst logging_snd)
    moreover from "1.prems" have "length [(?url, ?r)] \<le> 51 - page0" by simp
    ultimately show ?thesis by (intro exI [of _ "[(?url, ?r)]"]) simp
  next
    case (Next out')
    then have le: "page0 + 1 \<le> 50" by (rule page_body_Next_le)
    from Next have full: "is_full_page pageSize ?r" by (rule page_body_Next_full)
    have step: "paginate (logging svc) endpoint pageSize page0 out (w, log)
        = paginate (logging svc) endpoint pageSize (page0 + 1) out' (?w, ?log)"
      using Next by (subst paginate.simps) (simp add: Let_def logging_fst logging_snd)
    have "\<exists>new. snd (snd (paginate (logging svc) endpoint pageSize (page0 + 1) out' (?w, ?log)))
          = ?log @ new \<and> new \<noteq> [] \<and> length new \<le> 51 - (page0 + 1) \<and>
        map fst new = map (\<lambda>p. paged_url endpoint p pageSize)
            [Suc (page0 + 1) ..< Suc (page0 + 1) + length new] \<and>
        list_all (is_full_page pageSize) (butlast (map snd new))"
    proof (rule "1.hyps" [OF refl refl _ _ le])
      show "page_body pageSize (page0 + 1) out (fst (logging svc (w, log) ?url)) = Next out'"
        using Next by (simp add: logging_fst)
      show "snd (logging svc (w, log) ?url) = (?w, ?log)"
        by (simp add: logging_snd)
    qed
    then obtain new where new:
      "snd (snd (paginate (logging svc) endpoint pageSize (page0 + 1) out' (?w, ?log))) = ?log @ new"
      "new \<noteq> []" "length new \<le> 51 - (page0 + 1)"
      "map fst new = map (\<lambda>p. paged_url endpoint p pageSize)
            [Suc (page0 + 1) ..< Suc (page0 + 1) + length new]"
      "list_all (is_full_page pageSize) (butlast (map snd new))"
      by blast
    let ?new = "(?url, ?r) # new"
    have "snd (snd (paginate (logging svc) endpoint pageSize page0 out (w, log))) = log @ ?new"
      using step new(1) by simp
    moreover have "length ?new \<le> 51 - page0" using new(3) le by simp
    moreover have "map fst ?new = map (\<lambda>p. paged_url endpoint p pageSize)
        [Suc page0 ..< Suc page0 + length ?new]"
    proof -
      have "Suc page0 < Suc page0 + length ?new" by simp
      then have "[Suc page0 ..< Suc page0 + length ?new]
          = Suc page0 # [Suc (Suc page0) ..< Suc page0 + length ?new]"
        by (rule upt_conv_Cons)
      moreover have "Suc page0 + length ?new = Suc (page0 + 1) + length new" by simp
      ultimately have "[Suc page0 ..< Suc page0 + length ?new]
          = Suc page0 # [Suc (page0 + 1) ..< Suc (page0 + 1) + length new]"
        by (simp only: Suc_eq_plus1)
      then have "map (\<lambda>p. paged_url endpoint p pageSize) [Suc page0 ..< Suc page0 + length ?new]
          = paged_url endpoint (Suc page0) pageSize # map fst new"
        by (simp only: new(4) list.map)
      then show ?thesis by simp
    qed
    moreover have "list_all (is_full_page pageSize) (butlast (map snd ?new))"
      using new(2,5) full by simp
    ultimately show ?thesis by (intro exI [of _ ?new]) simp
  qed
qed


lemma paginate_log_bound:
  "\<exists>new. snd (snd (paginate (logging svc) endpoint pageSize 0 [] (w, log))) = log @ new \<and>
     length new \<le> 51"
  using paginate_log [of 0 svc endpoint pageSize "[]" w log] by auto

lemma tryEndpoints_log:
  "\<exists>new. snd (snd (tryEndpoints (logging svc) lbl candidates True pageSize (w, log))) = log @ new \<and>
     length new \<le> 51 * length candidates"
proof (induction candidates arbitrary: w log)
  case Nil
  then show ?case by simp
next
  case (Cons endpoint candidates)
  obtain res w' log' where p: "paginate (logging svc) endpoint pageSize 0 [] (w, log) = (res, (w', log'))"
    by (metis prod.exhaust)
  with paginate_log_bound [of svc endpoint pageSize w log]
  obtain new where new: "log' = log @ new" "length new \<le> 51" by auto
  from Cons.IH [of w' log'] obtain new' where new':
    "snd (snd (tryEndpoints (logging svc) lbl candidates True pageSize (w', log'))) = log' @ new'"
    "length new' \<le> 51 * length candidates"
    by blast
  show ?case
  proof (cases "\<exists>out. res = Inr out \<and> length out \<noteq> 0")
    case True
    with p have "snd (snd (tryEndpoints (logging svc) lbl (endpoint # candidates) True pageSize (w, log)))
        = log @ new"
      using new(1) by auto
    with new(2) show ?thesis by (intro exI [of _ new]) simp
  next
    case False
    with p have "tryEndpoints (logging svc) lbl (endpoint # candidates) True pageSize (w, log)
        = tryEndpoints (logging svc) lbl candidates True pageSize (w', log')"
      by (cases res) auto
    with new new' show ?thesis by (intro exI [of _ "new @ new'"]) simp
  qed
qed

text \<open>
  Claim C4, as the code has it.  Against one candidate endpoint the loop issues at most 51
  page requests, for the pages 1, 2, ... in this order, and every response but the last
  was a full page: after an empty page, a short page, a page without a truthy \<open>result\<close>,
  a 404 or a failure no further page is requested.  The test \<^verbatim>\<open>page > 50\<close> comes after
  the page has been fetched, so the cap stops the loop after page 51, not after page 50.
  A paginated \<open>tryEndpoints\<close> therefore issues at most 51 requests per candidate.
\<close>

theorem pagination_stops:
  "length (page_requests svc endpoint pageSize w) \<le> 51 \<and>
   map fst (page_requests svc endpoint pageSize w)
     = map (\<lambda>p. paged_url endpoint p pageSize)
         [1 ..< Suc (length (page_requests svc endpoint pageSize w))] \<and>
   list_all (is_full_page pageSize) (butlast (map snd (page_requests svc endpoint pageSize w))) \<and>
   length (snd (snd (tryEndpoints (logging svc) lbl candidates True pageSize (w, []))))
     \<le> 51 * length candidates"
proof -
  from paginate_log [of 0 svc endpoint pageSize "[]" w "[]"]
  obtain new where new: "page_requests svc endpoint pageSize w = new" "length new \<le> 51"
    "map fst new = map (\<lambda>p. paged_url endpoint p pageSize) [Suc 0 ..< Suc 0 + length new]"
    "list_all (is_full_page pageSize) (butlast (map snd new))"
    by (auto simp: page_requests_def)
  from tryEndpoints_log [of svc lbl candidates pageSize w "[]"]
  have "length (snd (snd (tryEndpoints (logging svc) lbl candidates True pageSize (w, []))))
     \<le> 51 * length candidates"
    by auto
  with new show ?thesis by simp
qed

lemma page_body_always_full:
  "page_body (Suc 0) page out (result_page [JNull])
     = (if page > 50 then Break (out @ [JNull]) else Next (out @ [JNull]))"
  by (simp add: page_body_def result_page_def ok_def page_items_def fld_def)

lemma always_full_requests:
  "page0 \<le> 50 \<Longrightarrow>
   length (snd (snd (paginate (logging (constant_service (result_page [JNull]))) endpoint 1 page0 out
      (w, log)))) = length log + (51 - page0)"
proof (induction "50 - page0" arbitrary: page0 out log)
  case 0
  then have "page0 = 50" by simp
  then show ?case
    by (subst paginate.simps)
       (simp add: Let_def logging_fst logging_snd constant_service_def page_body_always_full)
next
  case (Suc n)
  then have lt: "page0 < 50" and n: "n = 50 - (page0 + 1)" by simp_all
  have "paginate (logging (constant_service (result_page [JNull]))) endpoint 1 page0 out (w, log)
      = paginate (logging (constant_service (result_page [JNull]))) endpoint 1 (page0 + 1)
          (out @ [JNull]) (w, log @ [(paged_url endpoint (page0 + 1) 1, result_page [JNull])])"
    using lt
    by (subst paginate.simps)
       (simp add: Let_def logging_fst logging_snd constant_service_def page_body_always_full)
  moreover have "length (snd (snd (paginate (logging (constant_service (result_page [JNull])))
      endpoint 1 (page0 + 1) (out @ [JNull])
      (w, log @ [(paged_url endpoint (page0 + 1) 1, result_page [JNull])])))) =
      length (log @ [(paged_url endpoint (page0 + 1) 1, result_page [JNull])]) + (51 - (page0 + 1))"
    using lt by (intro Suc.hyps(1) n) simp
  ultimately show ?case using lt by simp
qed

text \<open>
  A service that answers every request with a full page of one item, asked with page
  size 1, receives 51 page requests.
\<close>

theorem pagination_fifty_first_request:
  "length (page_requests (constant_service (result_page [JNull])) ''/svc/v1/user/'' 1 ()) = 51"
  using always_full_requests [of 0 "''/svc/v1/user/''" "[]" "()" "[]"]
  by (simp add: page_requests_def)

lemma scripted_Cons: "scripted (r # rs) url = (r, rs)"
  by (simp add: scripted_def)

text \<open>
  Claim C7, as the code has it.  When the service answers the successive requests with
  pages of 100, 100 and 40 items, each under the \<open>result\<close> property of its body, probing
  the endpoint with page size 100 returns the 240 items in order after exactly three
  requests, for the pages 1, 2 and 3; what the service would answer next (\<open>rest\<close>) is
  never asked for.
\<close>

theorem pagination_three_pages:
  "length p1 = 100 \<and> length p2 = 100 \<and> length p3 = 40 \<longrightarrow>
     tryEndpoints (logging scripted) lbl [endpoint] True 100
        ([result_page p1, result_page p2, result_page p3] @ rest, [])
       = (p1 @ p2 @ p3,
          (rest, [(paged_url endpoint 1 100, result_page p1),
                  (paged_url endpoint 2 100, result_page p2),
                  (paged_url endpoint 3 100, result_page p3)])) \<and>
     length (p1 @ p2 @ p3) = 240"
proof
  assume h: "length p1 = 100 \<and> length p2 = 100 \<and> length p3 = 40"
  then have ne: "p1 \<noteq> []" "p2 \<noteq> []" "p3 \<noteq> []" by auto
  let ?u1 = "paged_url endpoint 1 100" and ?u2 = "paged_url endpoint 2 100"
    and ?u3 = "paged_url endpoint 3 100"
  have b1: "page_body 100 1 [] (result_page p1) = Next p1"
    using h ne by (simp add: page_body_def result_page_def ok_def page_items_def fld_def)
  have b2: "page_body 100 2 p1 (result_page p2) = Next (p1 @ p2)"
    using h ne by (simp add: page_body_def result_page_def ok_def page_items_def fld_def)
  have b3: "page_body 100 3 (p1 @ p2) (result_page p3) = Break (p1 @ p2 @ p3)"
    using h ne by (simp add: page_body_def result_page_def ok_def page_items_def fld_def)
  have n: "(0::nat) + 1 = 1" "(1::nat) + 1 = 2" "(2::nat) + 1 = 3" by simp_all
  have s3: "paginate (logging scripted) endpoint 100 2 (p1 @ p2)
        (result_page p3 # rest, [(?u1, result_page p1), (?u2, result_page p2)])
      = (Inr (p1 @ p2 @ p3),
         (rest, [(?u1, result_page p1), (?u2, result_page p2), (?u3, result_page p3)]))"
    by (subst paginate.simps) (simp only: Let_def logging_fst logging_snd scripted_Cons b3 n
        fst_conv snd_conv loop_exit.case append.simps)
  have s2: "paginate (logging scripted) endpoint 100 1 p1
        (result_page p2 # result_page p3 # rest, [(?u1, result_page p1)])
      = (Inr (p1 @ p2 @ p3),
         (rest, [(?u1, result_page p1), (?u2, result_page p2), (?u3, result_page p3)]))"
    by (subst paginate.simps) (simp only: Let_def logging_fst logging_snd scripted_Cons b2 n s3
        fst_conv snd_conv loop_exit.case append.simps)
  have s1: "paginate (logging scripted) endpoint 100 0 []
        (result_page p1 # result_page p2 # result_page p3 # rest, [])
      = (Inr (p1 @ p2 @ p3),
         (rest, [(?u1, result_page p1), (?u2, result_page p2), (?u3, result_page p3)]))"
    by (subst paginate.simps) (simp only: Let_def logging_fst logging_snd scripted_Cons b1 n s2
        fst_conv snd_conv loop_exit.case append.simps)
  from s1 h ne show "tryEndpoints (logging scripted) lbl [endpoint] True 100
        ([result_page p1, result_page p2, result_page p3] @ rest, [])
       = (p1 @ p2 @ p3,
          (rest, [(?u1, result_page p1), (?u2, result_page p2), (?u3, result_page p3)])) \<and>
     length (p1 @ p2 @ p3) = 240"
    by simp
qed

theorem pagination_three_pages_witness:
  "length (replicate 100 JNull) = 100 \<and> length (replicate 100 (JNum 1)) = 100 \<and>
   length (replicate 40 (JNum 2)) = 40 \<and>
   fst (tryEndpoints (logging scripted) ''users'' [''/svc/v1/user/''] True 100
        ([result_page (replicate 100 JNull), result_page (replicate 100 (JNum 1)),
          result_page (replicate 40 (JNum 2))] @ [None], []))
     = replicate 100 JNull @ replicate 100 (JNum 1) @ replicate 40 (JNum 2) \<and>
   length (replicate 100 JNull @ replicate 100 (JNum 1) @ replicate 40 (JNum 2)) = 240"
proof -
  have h: "length (replicate 100 JNull) = 100 \<and> length (replicate 100 (JNum 1)) = 100 \<and>
      length (replicate 40 (JNum 2)) = 40"
    by simp
  from pagination_three_pages
         [of "replicate 100 JNull" "replicate 100 (JNum 1)" "replicate 40 (JNum 2)"
             "''users''" "''/svc/v1/user/''" "[None]"] h
  show ?thesis by simp
qed

text \<open>
  The same three pages served as bare arrays: the loop stops after the first request and
  returns its 100 items.
\<close>

theorem pagination_bare_pages_stop_early:
  "length (fst (tryEndpoints (logging scripted) ''users'' [''/v1/users''] True 100
      ([bare_page (replicate 100 JNull), bare_page (replicate 100 JNull),
        bare_page (replicate 40 JNull)], []))) = 100 \<and>
   length (snd (snd (tryEndpoints (logging scripted) ''users'' [''/v1/users''] True 100
      ([bare_page (replicate 100 JNull), bare_page (replicate 100 JNull),
        bare_page (replicate 40 JNull)], [])))) = 1"
  by code_simp

section \<open>Properties of the credential exchange\<close>












section \<open>Properties of the per-team fan-out\<close>

lemma map_of_put: "map_of (put ob k v) k' = (if k' = k then Some v else map_of ob k')"
  by (induction ob) auto

lemma map_of_remove: "map_of (filter (\<lambda>e. fst e \<noteq> k) ob) k' = (if k' = k then None else map_of ob k')"
  by (induction ob) auto

lemma fld_assign: "fld (assign ob k v) k' = (if k' = k then v else fld ob k')"
  by (cases v) (simp_all add: fld_def map_of_put map_of_remove)

lemma member_record_stamped:
  "member_record tid c m = Inr r \<Longrightarrow>
     fld r ''_team_id'' = tid \<and> fld r ''_team_identifier_used'' = Some (JStr c)"
  by (auto simp: member_record_def Let_def fld_assign simp del: assign.simps split: if_splits)

lemma audit_record_stamped:
  "fld (audit_record tid c l) ''_team_id'' = tid \<and>
   fld (audit_record tid c l) ''_team_identifier_used'' = Some (JStr c)"
  by (simp add: audit_record_def fld_assign del: assign.simps)

lemma answered_append: "answered log ep \<Longrightarrow> answered (log @ ext) ep"
  by (auto simp: answered_def list_ex_iff)

lemma provenance_append: "provenance log eps t r \<Longrightarrow> provenance (log @ ext) eps t r"
  by (auto simp: provenance_def list_ex_iff intro: answered_append)

lemma provenance_intro:
  assumes "fld r ''_team_id'' = team_tag t" "fld r ''_team_identifier_used'' = Some (JStr c)"
    and "c \<in> set (uniqueIds t)" "ep \<in> set (eps c)" "answered log ep"
  shows "provenance log eps t r"
  using assms by (auto simp: provenance_def list_ex_iff)

lemma push_members_inv:
  assumes "\<forall>r \<in> set acc. \<exists>t \<in> set teams. provenance log eps t r"
    and "t \<in> set teams" "c \<in> set (uniqueIds t)" "ep \<in> set (eps c)" "answered log ep"
  shows "\<forall>r \<in> set (snd (push_members (team_tag t) c items acc)).
           \<exists>t \<in> set teams. provenance log eps t r"
  using assms(1)
proof (induction items arbitrary: acc)
  case Nil
  then show ?case by simp
next
  case (Cons m ms)
  show ?case
  proof (cases "member_record (team_tag t) c m")
    case (Inl e)
    with Cons.prems show ?thesis by simp
  next
    case (Inr r)
    then have "provenance log eps t r"
      using member_record_stamped [OF Inr] assms(3-5) by (intro provenance_intro) auto
    with assms(2) Cons.prems
    have "\<forall>x \<in> set (acc @ [r]). \<exists>t \<in> set teams. provenance log eps t x" by auto
    from Cons.IH [OF this] Inr show ?thesis by simp
  qed
qed


lemma inv_append:
  "\<forall>r \<in> set acc. \<exists>t \<in> set teams. provenance log eps t r \<Longrightarrow>
   \<forall>r \<in> set acc. \<exists>t \<in> set teams. provenance (log @ ext) eps t r"
  by (blast intro: provenance_append)

lemma try_member_pattern_inv:
  assumes inv: "\<forall>r \<in> set acc. \<exists>t \<in> set teams. provenance log eps t r"
    and t: "t \<in> set teams" "c \<in> set (uniqueIds t)"
    and ep: "member_endpoint p c \<in> set (eps c)"
    and run: "try_member_pattern (logging svc) (team_tag t) c p acc (w, log) = (got, acc', (w', log'))"
  shows "(\<forall>r \<in> set acc'. \<exists>t \<in> set teams. provenance log' eps t r) \<and> (\<exists>ext. log' = log @ ext)"
proof -
  let ?ep = "member_endpoint p c"
  let ?r = "fst (svc w ?ep)"
  let ?log = "log @ [(?ep, ?r)]"
  have inv': "\<forall>r \<in> set acc. \<exists>t \<in> set teams. provenance ?log eps t r"
    using inv by (rule inv_append)
  show ?thesis
  proof (cases "\<exists>res json. ?r = Some res \<and> status res \<noteq> 404 \<and> ok res \<and> json_body res = Some json")
    case True
    then obtain res json where res: "?r = Some res" "status res \<noteq> 404" "ok res"
      "json_body res = Some json" by blast
    then have ans: "answered ?log ?ep" by (simp add: answered_def)
    have pinv: "\<forall>r \<in> set (snd (push_members (team_tag t) c (member_items json) acc)).
        \<exists>t \<in> set teams. provenance ?log eps t r"
      using inv' t ep ans by (rule push_members_inv)
    from run res have "acc' = snd (push_members (team_tag t) c (member_items json) acc) \<and> log' = ?log"
      by (auto simp: try_member_pattern_def Let_def logging_apply split: prod.splits option.splits)
    with pinv show ?thesis by auto
  next
    case False
    with run have "acc' = acc \<and> log' = ?log"
      by (auto simp: try_member_pattern_def Let_def logging_apply split: option.splits if_splits)
    with inv' show ?thesis by auto
  qed
qed

lemma try_member_patterns_inv:
  assumes t: "t \<in> set teams" "c \<in> set (uniqueIds t)"
    and ep: "\<forall>p \<in> set ps. member_endpoint p c \<in> set (eps c)"
  shows "\<forall>r \<in> set acc. \<exists>t \<in> set teams. provenance log eps t r \<Longrightarrow>
    try_member_patterns (logging svc) (team_tag t) c ps acc (w, log) = (got, acc', (w', log')) \<Longrightarrow>
    (\<forall>r \<in> set acc'. \<exists>t \<in> set teams. provenance log' eps t r) \<and> (\<exists>ext. log' = log @ ext)"
  using ep
proof (induction ps arbitrary: acc w log)
  case Nil
  then show ?case by auto
next
  case (Cons p ps)
  obtain g a1 w1 l1 where step:
    "try_member_pattern (logging svc) (team_tag t) c p acc (w, log) = (g, a1, (w1, l1))"
    by (metis prod.exhaust)
  have s: "(\<forall>r \<in> set a1. \<exists>t \<in> set teams. provenance l1 eps t r) \<and> (\<exists>ext. l1 = log @ ext)"
    using Cons.prems(1) t _ step
  proof (rule try_member_pattern_inv)
    show "member_endpoint p c \<in> set (eps c)" using Cons.prems(3) by simp
  qed
  show ?case
  proof (cases g)
    case True
    with step Cons.prems(2) have "acc' = a1 \<and> log' = l1" by simp
    with s show ?thesis by simp
  next
    case False
    with step Cons.prems(2)
    have rest: "try_member_patterns (logging svc) (team_tag t) c ps a1 (w1, l1) = (got, acc', (w', log'))"
      by simp
    from Cons.prems(3) have "\<forall>p \<in> set ps. member_endpoint p c \<in> set (eps c)" by simp
    with Cons.IH [of a1 l1 w1] s rest
    have "(\<forall>r \<in> set acc'. \<exists>t \<in> set teams. provenance log' eps t r) \<and> (\<exists>ext. log' = l1 @ ext)"
      by blast
    with s show ?thesis by auto
  qed
qed

lemma try_member_candidates_inv:
  assumes t: "t \<in> set teams"
    and ep: "\<forall>c. \<forall>p \<in> set ps. member_endpoint p c \<in> set (eps c)"
  shows "set cs \<subseteq> set (uniqueIds t) \<Longrightarrow>
    \<forall>r \<in> set acc. \<exists>t \<in> set teams. provenance log eps t r \<Longrightarrow>
    try_member_candidates (logging svc) (team_tag t) cs ps acc (w, log) = (got, acc', (w', log')) \<Longrightarrow>
    (\<forall>r \<in> set acc'. \<exists>t \<in> set teams. provenance log' eps t r) \<and> (\<exists>ext. log' = log @ ext)"
proof (induction cs arbitrary: acc w log)
  case Nil
  then show ?case by auto
next
  case (Cons c cs)
  obtain g a1 w1 l1 where step:
    "try_member_patterns (logging svc) (team_tag t) c ps acc (w, log) = (g, a1, (w1, l1))"
    by (metis prod.exhaust)
  from Cons.prems(1) have c: "c \<in> set (uniqueIds t)" by simp
  from ep have "\<forall>p \<in> set ps. member_endpoint p c \<in> set (eps c)" by simp
  from try_member_patterns_inv [OF t c this Cons.prems(2) step]
  have s: "(\<forall>r \<in> set a1. \<exists>t \<in> set teams. provenance l1 eps t r) \<and> (\<exists>ext. l1 = log @ ext)" .
  show ?case
  proof (cases g)
    case True
    with step Cons.prems(3) have "acc' = a1 \<and> log' = l1" by simp
    with s show ?thesis by simp
  next
    case False
    with step Cons.prems(3)
    have rest: "try_member_candidates (logging svc) (team_tag t) cs ps a1 (w1, l1) = (got, acc', (w', log'))"
      by simp
    from Cons.prems(1) have "set cs \<subseteq> set (uniqueIds t)" by simp
    with Cons.IH [of a1 l1 w1] s rest
    have "(\<forall>r \<in> set acc'. \<exists>t \<in> set teams. provenance log' eps t r) \<and> (\<exists>ext. log' = l1 @ ext)"
      by blast
    with s show ?thesis by auto
  qed
qed


lemma audit_loop_inv:
  assumes t: "t \<in> set teams"
  shows "set cs \<subseteq> set (uniqueIds t) \<Longrightarrow>
    \<forall>r \<in> set acc. \<exists>t \<in> set teams. provenance log (\<lambda>c. [audit_endpoint c]) t r \<Longrightarrow>
    audit_loop (logging svc) (team_tag t) tried cs acc (w, log) = (acc', (w', log')) \<Longrightarrow>
    (\<forall>r \<in> set acc'. \<exists>t \<in> set teams. provenance log' (\<lambda>c. [audit_endpoint c]) t r) \<and>
    (\<exists>ext. log' = log @ ext)"
proof (induction cs arbitrary: tried acc w log)
  case Nil
  then show ?case by auto
next
  case (Cons c cs)
  from Cons.prems(1) have c: "c \<in> set (uniqueIds t)" and cs: "set cs \<subseteq> set (uniqueIds t)"
    by simp_all
  let ?ep = "audit_endpoint c"
  let ?r = "fst (svc w ?ep)"
  let ?w = "snd (svc w ?ep)"
  let ?log = "log @ [(?ep, ?r)]"
  have inv': "\<forall>r \<in> set acc. \<exists>t \<in> set teams. provenance ?log (\<lambda>c. [audit_endpoint c]) t r"
    using Cons.prems(2) by (rule inv_append)
  show ?case
  proof (cases "c \<in> set tried")
    case True
    with Cons.prems(3)
    have "audit_loop (logging svc) (team_tag t) tried cs acc (w, log) = (acc', (w', log'))"
      by simp
    from Cons.IH [OF cs Cons.prems(2) this] show ?thesis .
  next
    case False
    show ?thesis
    proof (cases "\<exists>res json. ?r = Some res \<and> status res \<noteq> 404 \<and> ok res \<and>
        json_body res = Some json \<and> length (audit_items json) \<noteq> 0")
      case True
      then obtain res json where res: "?r = Some res" "status res \<noteq> 404" "ok res"
        "json_body res = Some json" "length (audit_items json) \<noteq> 0" by blast
      then have ans: "answered ?log ?ep" by (simp add: answered_def)
      from Cons.prems(3) False res
      have out: "acc' = acc @ map (audit_record (team_tag t) c) (audit_items json)" "log' = ?log"
        by (simp_all add: logging_apply Let_def)
      have "\<forall>l. provenance ?log (\<lambda>c. [audit_endpoint c]) t (audit_record (team_tag t) c l)"
        using audit_record_stamped c ans by (intro allI provenance_intro) auto
      with t inv' out show ?thesis by auto
    next
      case no: False
      with Cons.prems(3) False
      have "audit_loop (logging svc) (team_tag t) (set_add tried c) cs acc (?w, ?log)
          = (acc', (w', log'))"
        by (auto simp: logging_apply Let_def split: option.splits if_splits)
      from Cons.IH [OF cs inv' this] show ?thesis by auto
    qed
  qed
qed

lemma fan_out_team_inv:
  assumes t: "t \<in> set teams"
    and m: "\<forall>r \<in> set ms. \<exists>t \<in> set teams.
        provenance log (\<lambda>c. map (\<lambda>p. member_endpoint p c) ps) t r"
    and a: "\<forall>r \<in> set as. \<exists>t \<in> set teams. provenance log (\<lambda>c. [audit_endpoint c]) t r"
    and run: "fan_out_team (logging svc) ps (ms, as, (w, log)) t = (ms', as', (w', log'))"
  shows "(\<forall>r \<in> set ms'. \<exists>t \<in> set teams.
        provenance log' (\<lambda>c. map (\<lambda>p. member_endpoint p c) ps) t r) \<and>
    (\<forall>r \<in> set as'. \<exists>t \<in> set teams. provenance log' (\<lambda>c. [audit_endpoint c]) t r) \<and>
    (\<exists>ext. log' = log @ ext)"
proof (cases "length (uniqueIds t) = 0")
  case True
  with run have "ms' = ms \<and> as' = as \<and> log' = log" by (simp add: fan_out_team_def)
  with m a show ?thesis by simp
next
  case False
  obtain g m1 w1 l1 where mrun:
    "try_member_candidates (logging svc) (team_tag t) (uniqueIds t) ps ms (w, log) = (g, m1, (w1, l1))"
    by (metis prod.exhaust)
  obtain a2 w2 l2 where arun:
    "audit_loop (logging svc) (team_tag t) [] (uniqueIds t) as (w1, l1) = (a2, (w2, l2))"
    by (metis prod.exhaust)
  from run False mrun arun have out: "ms' = m1" "as' = a2" "log' = l2"
    by (simp_all add: fan_out_team_def Let_def)
  have "\<forall>c. \<forall>p \<in> set ps. member_endpoint p c \<in> set (map (\<lambda>p. member_endpoint p c) ps)"
    by simp
  from try_member_candidates_inv [OF t this subset_refl m mrun]
  have m1: "\<forall>r \<in> set m1. \<exists>t \<in> set teams.
        provenance l1 (\<lambda>c. map (\<lambda>p. member_endpoint p c) ps) t r"
    and l1: "\<exists>ext. l1 = log @ ext" by blast+
  from l1 a have a1: "\<forall>r \<in> set as. \<exists>t \<in> set teams. provenance l1 (\<lambda>c. [audit_endpoint c]) t r"
    by (auto intro: provenance_append)
  from audit_loop_inv [OF t subset_refl a1 arun]
  have a2: "\<forall>r \<in> set a2. \<exists>t \<in> set teams. provenance l2 (\<lambda>c. [audit_endpoint c]) t r"
    and l2: "\<exists>ext. l2 = l1 @ ext" by blast+
  from l2 m1 have "\<forall>r \<in> set m1. \<exists>t \<in> set teams.
        provenance l2 (\<lambda>c. map (\<lambda>p. member_endpoint p c) ps) t r"
    by (auto intro: provenance_append)
  with a2 l1 l2 out show ?thesis by auto
qed

lemma fan_out_inv:
  "set ts \<subseteq> set teams \<Longrightarrow>
   \<forall>r \<in> set ms. \<exists>t \<in> set teams. provenance log (\<lambda>c. map (\<lambda>p. member_endpoint p c) ps) t r \<Longrightarrow>
   \<forall>r \<in> set as. \<exists>t \<in> set teams. provenance log (\<lambda>c. [audit_endpoint c]) t r \<Longrightarrow>
   foldl (fan_out_team (logging svc) ps) (ms, as, (w, log)) ts = (ms', as', (w', log')) \<Longrightarrow>
   (\<forall>r \<in> set ms'. \<exists>t \<in> set teams.
        provenance log' (\<lambda>c. map (\<lambda>p. member_endpoint p c) ps) t r) \<and>
   (\<forall>r \<in> set as'. \<exists>t \<in> set teams. provenance log' (\<lambda>c. [audit_endpoint c]) t r)"
proof (induction ts arbitrary: ms as w log)
  case Nil
  then show ?case by simp
next
  case (Cons t ts)
  obtain m1 a1 w1 l1 where step:
    "fan_out_team (logging svc) ps (ms, as, (w, log)) t = (m1, a1, (w1, l1))"
    by (metis prod.exhaust)
  from Cons.prems(1) have t: "t \<in> set teams" and ts: "set ts \<subseteq> set teams" by simp_all
  from fan_out_team_inv [OF t Cons.prems(2,3) step]
  have m1: "\<forall>r \<in> set m1. \<exists>t \<in> set teams.
        provenance l1 (\<lambda>c. map (\<lambda>p. member_endpoint p c) ps) t r"
    and a1: "\<forall>r \<in> set a1. \<exists>t \<in> set teams. provenance l1 (\<lambda>c. [audit_endpoint c]) t r"
    by blast+
  from Cons.prems(4) step
  have "foldl (fan_out_team (logging svc) ps) (m1, a1, (w1, l1)) ts = (ms', as', (w', log'))"
    by simp
  from Cons.IH [OF ts m1 a1 this] show ?case .
qed

text \<open>
  Claim C3, as the code has it.  Every member record and every audit-log record that the
  fan-out over the teams produces belongs to one of the teams in this sense: its
  \<open>_team_id\<close> is that team's tag \<^verbatim>\<open>numericId ?? nameId\<close> (the team's \<open>id\<close> or \<open>team_id\<close>
  when there is one, else its \<open>name\<close>, \<open>slug\<close> or \<open>title\<close>; absent when there is neither),
  whichever candidate fetched the record; and its \<open>_team_identifier_used\<close> is the candidate
  identifier of the team for which one of the endpoints was called and answered
  successfully.
\<close>

theorem fan_out_provenance:
  "fan_out (logging svc) patterns teams (w, []) = (teamMembers, auditLogsAll, (w', log)) \<longrightarrow>
     (\<forall>r \<in> set teamMembers. \<exists>t \<in> set teams.
        provenance log (\<lambda>c. map (\<lambda>p. member_endpoint p c) patterns) t r) \<and>
     (\<forall>r \<in> set auditLogsAll. \<exists>t \<in> set teams.
        provenance log (\<lambda>c. [audit_endpoint c]) t r)"
proof
  assume "fan_out (logging svc) patterns teams (w, []) = (teamMembers, auditLogsAll, (w', log))"
  then have "foldl (fan_out_team (logging svc) patterns) ([], [], (w, [])) teams
      = (teamMembers, auditLogsAll, (w', log))"
    by (simp add: fan_out_def)
  from fan_out_inv [OF subset_refl _ _ this]
  show "(\<forall>r \<in> set teamMembers. \<exists>t \<in> set teams.
        provenance log (\<lambda>c. map (\<lambda>p. member_endpoint p c) patterns) t r) \<and>
     (\<forall>r \<in> set auditLogsAll. \<exists>t \<in> set teams.
        provenance log (\<lambda>c. [audit_endpoint c]) t r)"
    by simp
qed


text \<open>
  For a team with id 7 and name \<open>eng\<close> the first candidate is the name; the records fetched
  through it carry the \<open>_team_id\<close> 7 and the \<open>_team_identifier_used\<close> \<open>eng\<close>.
\<close>

theorem fan_out_team_id_differs:
  "map (\<lambda>r. (fld r ''_team_id'', fld r ''_team_identifier_used'')) (fst example_fan_out)
     = [(Some (JNum 7), Some (JStr ''eng''))] \<and>
   map (\<lambda>r. (fld r ''_team_id'', fld r ''_team_identifier_used'')) (fst (snd example_fan_out))
     = [(Some (JNum 7), Some (JStr ''eng''))] \<and>
   map fst (snd (snd (snd example_fan_out)))
     = [''/v1/teams/eng/memberships'', ''/v2/audit/teams/eng/logs'']"
  by code_simp

theorem fan_out_provenance_witness:
  "length (fst example_fan_out) = 1 \<and>
   list_all (provenance (snd (snd (snd example_fan_out)))
      (\<lambda>c. map (\<lambda>p. member_endpoint p c)
         (teamMembersFallbacks ''/v1/teams/{team_id}/memberships'')) example_team)
     (fst example_fan_out) \<and>
   length (fst (snd example_fan_out)) = 1 \<and>
   list_all (provenance (snd (snd (snd example_fan_out))) (\<lambda>c. [audit_endpoint c]) example_team)
     (fst (snd example_fan_out))"
proof -
  have run: "fan_out (logging scripted) (teamMembersFallbacks ''/v1/teams/{team_id}/memberships'')
        [example_team] ([members_response, audit_response], [])
      = (fst example_fan_out, fst (snd example_fan_out),
         (fst (snd (snd example_fan_out)), snd (snd (snd example_fan_out))))"
    by (simp add: example_fan_out_def)
  have n: "length (fst example_fan_out) = 1" "length (fst (snd example_fan_out)) = 1"
    by code_simp+
  from fan_out_provenance
         [of scripted "teamMembersFallbacks ''/v1/teams/{team_id}/memberships''" "[example_team]"
             "[members_response, audit_response]" "fst example_fan_out"
             "fst (snd example_fan_out)" "fst (snd (snd example_fan_out))"
             "snd (snd (snd example_fan_out))"] run n
  show ?thesis by (simp add: list_all_iff)
qed

end
